theory Spec2Isabelle
  imports Complex_Main "HOL-Library.AList"
begin

text \<open>
  A shallow embedding of the catalogue pipeline of \<open>aceru-checkout\<close>: the budget guard and
  the row enrichment of \<open>ecom_agents.py\<close> (and the guard of \<open>seed_from_kit.py\<close>), the handle
  slug of its schema normalizer, the variant expander of \<open>pod_variants_builder.py\<close>, the
  slug and the handle of \<open>image_seo_prep.py\<close> and the merge of
  \<open>merge_images_into_products.py\<close>. Exceptions are values of the type \<open>error\<close>, mutable
  state is passed explicitly, and the chat-completion provider is a parameter.
\<close>

section \<open>Python strings\<close>

text \<open>
  A Python \<open>str\<close> is modelled as a HOL \<open>string\<close>, one \<open>char\<close> per code point.
  Case mapping and the whitespace class follow Python on the ASCII range, which is
  where the pipeline's titles, option values and column names live; a code point
  above 127 is neither whitespace nor a cased letter in this model.
\<close>

definition is_space :: "char \<Rightarrow> bool" where
  \<comment> \<open>\<open>str.isspace\<close> on ASCII: TAB, LF, VT, FF, CR, the separators FS, GS, RS, US, and the blank.\<close>
  "is_space c = (let n = (of_char c :: nat) in (9 \<le> n \<and> n \<le> 13) \<or> (28 \<le> n \<and> n \<le> 32))"

definition lower_char :: "char \<Rightarrow> char" where
  "lower_char c = (let n = (of_char c :: nat) in if 65 \<le> n \<and> n \<le> 90 then char_of (n + 32) else c)"

definition upper_char :: "char \<Rightarrow> char" where
  "upper_char c = (let n = (of_char c :: nat) in if 97 \<le> n \<and> n \<le> 122 then char_of (n - 32) else c)"

definition is_alnum :: "char \<Rightarrow> bool" where
  \<comment> \<open>the regular-expression class \<open>[a-z0-9]\<close>\<close>
  "is_alnum c = (let n = (of_char c :: nat) in (97 \<le> n \<and> n \<le> 122) \<or> (48 \<le> n \<and> n \<le> 57))"

definition lower :: "string \<Rightarrow> string" where
  "lower s = map lower_char s"

definition upper :: "string \<Rightarrow> string" where
  "upper s = map upper_char s"

definition strip_chars :: "(char \<Rightarrow> bool) \<Rightarrow> string \<Rightarrow> string" where
  \<comment> \<open>remove the characters satisfying \<open>P\<close> from both ends\<close>
  "strip_chars P s = rev (dropWhile P (rev (dropWhile P s)))"

definition strip :: "string \<Rightarrow> string" where
  \<comment> \<open>\<open>s.strip()\<close>\<close>
  "strip s = strip_chars is_space s"

function split_ws :: "string \<Rightarrow> string list" where
  \<comment> \<open>\<open>s.split()\<close>: the maximal runs of non-whitespace, in order\<close>
  "split_ws s =
     (case dropWhile is_space s of
        [] \<Rightarrow> []
      | c # cs \<Rightarrow> (c # takeWhile (\<lambda>x. \<not> is_space x) cs)
                    # split_ws (dropWhile (\<lambda>x. \<not> is_space x) cs))"
  by pat_completeness auto
termination
proof (relation "measure length", goal_cases)
  case 1
  show ?case by simp
next
  case (2 s c cs)
  have "length (dropWhile (\<lambda>x. \<not> is_space x) cs) \<le> length cs"
    by (rule length_dropWhile_le)
  moreover have "length (c # cs) \<le> length s"
    using 2 length_dropWhile_le [of is_space s] by simp
  ultimately show ?case by simp
qed

declare split_ws.simps [simp del]

fun split_on :: "char \<Rightarrow> string \<Rightarrow> string list" where
  \<comment> \<open>\<open>s.split(sep)\<close> for a one-character separator: empty fields are kept, \<open>''.split(',') = ['']\<close>\<close>
  "split_on sep [] = [[]]"
| "split_on sep (c # cs) =
     (if c = sep then [] # split_on sep cs
      else (case split_on sep cs of
              [] \<Rightarrow> [[c]]
            | w # ws \<Rightarrow> (c # w) # ws))"

fun join :: "string \<Rightarrow> string list \<Rightarrow> string" where
  \<comment> \<open>\<open>sep.join(xs)\<close>\<close>
  "join sep [] = []"
| "join sep [x] = x"
| "join sep (x # y # ys) = x @ sep @ join sep (y # ys)"

fun re_sub_runs :: "(char \<Rightarrow> bool) \<Rightarrow> bool \<Rightarrow> string \<Rightarrow> string" where
  \<comment> \<open>\<open>re.sub('[class]+', '-', s)\<close>: every maximal run of characters of the class becomes
      one hyphen; the flag says that the previous character belonged to a run\<close>
  "re_sub_runs P in_run [] = []"
| "re_sub_runs P in_run (c # cs) =
     (if P c then (if in_run then re_sub_runs P True cs else CHR ''-'' # re_sub_runs P True cs)
      else c # re_sub_runs P False cs)"

function re_sub_hyphens :: "string \<Rightarrow> string" where
  \<comment> \<open>\<open>re.sub('-{2,}', '-', s)\<close>: every maximal run of two or more hyphens becomes one hyphen\<close>
  "re_sub_hyphens [] = []"
| "re_sub_hyphens [c] = [c]"
| "re_sub_hyphens (a # b # cs) =
     (if a = CHR ''-'' \<and> b = CHR ''-''
      then CHR ''-'' # re_sub_hyphens (dropWhile (\<lambda>x. x = CHR ''-'') cs)
      else a # re_sub_hyphens (b # cs))"
  by pat_completeness auto
termination
proof (relation "measure length", goal_cases)
  case 1
  show ?case by simp
next
  case (2 a b cs)
  have "length (dropWhile (\<lambda>x. x = CHR ''-'') cs) \<le> length cs"
    by (rule length_dropWhile_le)
  then show ?case by simp
next
  case (3 a b cs)
  show ?case by simp
qed

fun no_double_hyphen :: "string \<Rightarrow> bool" where
  \<comment> \<open>no two adjacent hyphens\<close>
  "no_double_hyphen (a # b # cs) = (\<not> (a = CHR ''-'' \<and> b = CHR ''-'') \<and> no_double_hyphen (b # cs))"
| "no_double_hyphen cs = True"

section \<open>Slugs and handles\<close>

definition ecom_slug :: "string \<Rightarrow> string" where
  \<comment> \<open>\<open>slug\<close> local to \<open>ecom_agents.build_shopify_csv\<close>: \<open>"-".join(str(s).lower().strip().split())\<close>\<close>
  "ecom_slug s = join ''-'' (split_ws (strip (lower s)))"

definition pod_slug :: "string \<Rightarrow> string" where
  \<comment> \<open>\<open>pod_variants_builder.slug\<close>\<close>
  "pod_slug s = join ''-'' (split_ws (strip (lower s)))"

definition image_handle :: "string \<Rightarrow> string" where
  \<comment> \<open>the handle of \<open>image_seo_prep.main\<close>: \<open>title = str(...).strip()\<close>, then
      \<open>"-".join(title.lower().split())\<close>\<close>
  "image_handle s = join ''-'' (split_ws (lower (strip s)))"

definition image_slug :: "string \<Rightarrow> string" where
  \<comment> \<open>\<open>image_seo_prep.slug\<close>, which names the renamed image files\<close>
  "image_slug s =
     (let s1 = strip (lower s);
          s2 = re_sub_runs (\<lambda>c. \<not> is_alnum c) False s1;
          s3 = strip_chars (\<lambda>c. c = CHR ''-'') (re_sub_hyphens s2)
      in if s3 = [] then ''item'' else s3)"


section \<open>Exceptions\<close>

datatype error =
    BudgetCapHit            \<comment> \<open>\<open>RuntimeError("Budget cap hit ...")\<close> of the budget guard\<close>
  | ProviderError           \<comment> \<open>any exception of the chat-completion request\<close>
  | JSONDecodeError         \<comment> \<open>\<open>json.loads\<close> on a reply that is not JSON\<close>
  | AttributeError
  | TypeError
  | KeyError string
  | ValueError "string list"

section \<open>Budget guard\<close>

text \<open>
  The class \<open>BudgetGuard\<close> of \<open>ecom_agents\<close> and of \<open>seed_from_kit\<close>. The amounts are
  Python floats; the model computes with exact reals, so rounding, infinities and NaN are
  outside it.
\<close>

record budget_guard =
  total :: real
  spent :: real
  est :: real

definition budget_init :: "real \<Rightarrow> real \<Rightarrow> budget_guard" where
  \<comment> \<open>\<open>BudgetGuard.__init__\<close>\<close>
  "budget_init total_usd est_per_call = \<lparr>total = total_usd, spent = 0, est = est_per_call\<rparr>"

definition check_and_book :: "budget_guard \<Rightarrow> int \<Rightarrow> error + budget_guard" where
  \<comment> \<open>\<open>ecom_agents.BudgetGuard.check_and_book\<close>\<close>
  "check_and_book g calls =
     (let projected = spent g + est g * real_of_int calls
      in if projected > total g then Inl BudgetCapHit
         else Inr (g\<lparr>spent := projected\<rparr>))"

definition book :: "budget_guard \<Rightarrow> int \<Rightarrow> error + budget_guard" where
  \<comment> \<open>\<open>seed_from_kit.BudgetGuard.book\<close>\<close>
  "book g n =
     (let nxt = spent g + est g * real_of_int n
      in if nxt > total g then Inl BudgetCapHit
         else Inr (g\<lparr>spent := nxt\<rparr>))"

fun reservations :: "budget_guard \<Rightarrow> int list \<Rightarrow> budget_guard" where
  \<comment> \<open>the guard after a sequence of reservations; a rejected one raises and leaves the guard as it was\<close>
  "reservations g [] = g"
| "reservations g (n # ns) =
     reservations (case check_and_book g n of Inl e \<Rightarrow> g | Inr g' \<Rightarrow> g') ns"

section \<open>The LLM gateway\<close>

datatype json =
    JNull
  | JBool bool
  | JNum int
  | JStr string
  | JArr "json list"
  | JObj "(string \<times> json) list"   \<comment> \<open>a parsed object: the keys are distinct\<close>

text \<open>
  The provider is outside the program. Its answer to a request is a parameter of the model:
  the answer to the \<open>k\<close>-th request issued in the run, given the fields the prompt embeds, is
  either an exception (of the request itself or of \<open>json.loads\<close>) or the parsed JSON value.
\<close>

type_synonym prompt = "string \<times> string \<times> string \<times> string"

type_synonym provider = "nat \<Rightarrow> prompt \<Rightarrow> error + json"

record run_state =
  budget :: budget_guard   \<comment> \<open>the module-level \<open>BUDGET\<close>\<close>
  issued :: nat            \<comment> \<open>requests sent to the provider so far\<close>

definition llm_json :: "provider \<Rightarrow> run_state \<Rightarrow> prompt \<Rightarrow> (error + json) \<times> run_state" where
  \<comment> \<open>\<open>ecom_agents.llm_json\<close>: book one call, then send the request and parse the reply\<close>
  "llm_json P st q =
     (case check_and_book (budget st) 1 of
        Inl e \<Rightarrow> (Inl e, st)
      | Inr b \<Rightarrow> (P (issued st) q, st\<lparr>budget := b, issued := Suc (issued st)\<rparr>))"

section \<open>Row enrichment\<close>

record seed_row =
  title :: string
  features :: string
  materials :: string
  use_cases :: string
  price :: string
  sku :: string
  tags :: string

record copy_row =
  Title :: json
  Body_HTML :: json
  Vendor :: string
  Type :: string
  Tags :: string
  Published :: bool
  Option1_Name :: string
  Option1_Value :: string
  Variant_SKU :: string
  Variant_Price :: string
  Variant_Inventory_Qty :: int
  Variant_Inventory_Policy :: string
  Variant_Fulfillment_Service :: string
  Variant_Requires_Shipping :: bool
  Variant_Taxable :: bool
  Image_Src :: string
  Variant_Grams :: string
  Cost_per_item :: string
  Status :: string

definition dict_get :: "(string \<times> json) list \<Rightarrow> string \<Rightarrow> json \<Rightarrow> json" where
  \<comment> \<open>\<open>d.get(key, default)\<close>\<close>
  "dict_get d k dflt = (case map_of d k of Some v \<Rightarrow> v | None \<Rightarrow> dflt)"

fun slice70 :: "json \<Rightarrow> error + json" where
  \<comment> \<open>\<open>v[:70]\<close>: strings and lists are sliced, any other value raises\<close>
  "slice70 (JStr s) = Inr (JStr (take 70 s))"
| "slice70 (JArr xs) = Inr (JArr (take 70 xs))"
| "slice70 v = Inl TypeError"

fun strs_of :: "json list \<Rightarrow> error + string list" where
  \<comment> \<open>the items of a list given to \<open>str.join\<close>, which raises on an item that is not a string\<close>
  "strs_of [] = Inr []"
| "strs_of (JStr s # vs) = (case strs_of vs of Inl e \<Rightarrow> Inl e | Inr ss \<Rightarrow> Inr (s # ss))"
| "strs_of (v # vs) = Inl TypeError"

definition adopt_reply :: "string \<Rightarrow> string \<Rightarrow> json \<Rightarrow> error + json \<times> json \<times> string" where
  \<comment> \<open>the rest of the \<open>try\<close> block of \<open>generate_product_copy\<close>, after \<open>llm_json\<close> has returned \<open>data\<close>\<close>
  "adopt_reply title0 base_tags data =
     (case data of
        JObj d \<Rightarrow>
          (case slice70 (dict_get d ''title_seo'' (JStr title0)) of
             Inl e \<Rightarrow> Inl e
           | Inr out_title \<Rightarrow>
               (let body_html = dict_get d ''body_html'' (JStr '''');
                    tgs = dict_get d ''tags'' (JArr [])
                in case tgs of
                     JArr ts \<Rightarrow>
                       (case strs_of ts of
                          Inl e \<Rightarrow> Inl e
                        | Inr ss \<Rightarrow> Inr (out_title, body_html, join '', '' ss))
                   | _ \<Rightarrow> Inr (out_title, body_html, base_tags)))
      | _ \<Rightarrow> Inl AttributeError)"

definition fallback_copy :: "string \<Rightarrow> string \<Rightarrow> string \<Rightarrow> string \<Rightarrow> json \<times> json \<times> string" where
  \<comment> \<open>the \<open>except Exception\<close> block of \<open>generate_product_copy\<close>\<close>
  "fallback_copy title0 features0 materials0 base_tags =
     (let out_title = take 70 title0;
          bullet = concat (map (\<lambda>x. ''<li>'' @ strip x @ ''</li>'')
                     (filter (\<lambda>x. strip x \<noteq> []) (split_on CHR '','' features0)));
          body_html = ''<h3>Highlights</h3><ul>'' @ bullet @ ''</ul><h3>Details</h3><p>'' @ materials0
                      @ ''</p><h3>Shipping & Returns</h3><p>30-day returns. Tracked shipping.</p>''
      in (JStr out_title, JStr body_html, base_tags))"

definition copy_step :: "provider \<Rightarrow> string \<Rightarrow> run_state \<Rightarrow> seed_row \<Rightarrow> copy_row \<times> run_state" where
  \<comment> \<open>one iteration of the loop of \<open>generate_product_copy\<close>\<close>
  "copy_step P vendor st r =
     (let title0 = strip (title r);
          features0 = strip (features r);
          materials0 = strip (materials r);
          use_cases0 = strip (use_cases r);
          price0 = price r;
          sku0 = strip (sku r);
          base_tags = strip (tags r);
          (reply, st') = llm_json P st (title0, features0, materials0, use_cases0);
          (out_title, body_html, tag_str) =
             (case reply of
                Inl e \<Rightarrow> fallback_copy title0 features0 materials0 base_tags
              | Inr data \<Rightarrow>
                  (case adopt_reply title0 base_tags data of
                     Inl e \<Rightarrow> fallback_copy title0 features0 materials0 base_tags
                   | Inr t \<Rightarrow> t))
      in (\<lparr>Title = out_title, Body_HTML = body_html, Vendor = vendor, Type = '''',
           Tags = tag_str, Published = True, Option1_Name = ''Title'',
           Option1_Value = ''Default Title'', Variant_SKU = sku0, Variant_Price = price0,
           Variant_Inventory_Qty = 10, Variant_Inventory_Policy = ''deny'',
           Variant_Fulfillment_Service = ''manual'', Variant_Requires_Shipping = True,
           Variant_Taxable = True, Image_Src = '''', Variant_Grams = '''', Cost_per_item = '''',
           Status = ''active''\<rparr>, st'))"

fun generate_product_copy ::
  "provider \<Rightarrow> string \<Rightarrow> run_state \<Rightarrow> seed_row list \<Rightarrow> copy_row list \<times> run_state" where
  \<comment> \<open>the loop of \<open>ecom_agents.generate_product_copy\<close> over the rows read from the input table\<close>
  "generate_product_copy P vendor st [] = ([], st)"
| "generate_product_copy P vendor st (r # rs) =
     (let (row, st1) = copy_step P vendor st r;
          (rows, st2) = generate_product_copy P vendor st1 rs
      in (row # rows, st2))"


section \<open>Tables\<close>

text \<open>
  A table read by \<open>pandas.read_csv\<close> has an ordered list of distinct column names and a list
  of rows; a row (the \<open>Series\<close> that \<open>iterrows\<close> yields, or the \<open>dict\<close> a stage builds) is
  a list of (column, value) pairs in column order. A value is a string, a boolean, an
  integer or the missing value; columns have the \<open>object\<close> dtype, and floating-point
  cells are outside the model.
\<close>

datatype cell = Str string | Bool bool | Num int | NaN

type_synonym row = "(string \<times> cell) list"

record dataframe =
  df_columns :: "string list"
  df_rows :: "row list"

definition wf_dataframe :: "dataframe \<Rightarrow> bool" where
  \<comment> \<open>what \<open>read_csv\<close> guarantees: distinct column names, and every row has exactly the columns\<close>
  "wf_dataframe df = (distinct (df_columns df) \<and> list_all (\<lambda>r. map fst r = df_columns df) (df_rows df))"

definition row_get :: "row \<Rightarrow> string \<Rightarrow> cell \<Rightarrow> cell" where
  \<comment> \<open>\<open>r.get(key, default)\<close>\<close>
  "row_get r k dflt = (case map_of r k of Some v \<Rightarrow> v | None \<Rightarrow> dflt)"

definition row_item :: "row \<Rightarrow> string \<Rightarrow> error + cell" where
  \<comment> \<open>\<open>r[key]\<close>\<close>
  "row_item r k = (case map_of r k of Some v \<Rightarrow> Inr v | None \<Rightarrow> Inl (KeyError k))"

function str_nat :: "nat \<Rightarrow> string" where
  \<comment> \<open>the decimal digits of a natural number\<close>
  "str_nat n = (if n < 10 then [char_of (48 + n)] else str_nat (n div 10) @ [char_of (48 + n mod 10)])"
  by pat_completeness auto
termination
  by (relation "measure id") auto

declare str_nat.simps [simp del]

definition str_int :: "int \<Rightarrow> string" where
  "str_int i = (if i < 0 then CHR ''-'' # str_nat (nat (- i)) else str_nat (nat i))"

fun str_cell :: "cell \<Rightarrow> string" where
  \<comment> \<open>\<open>str(v)\<close>\<close>
  "str_cell (Str s) = s"
| "str_cell (Bool b) = (if b then ''True'' else ''False'')"
| "str_cell (Num i) = str_int i"
| "str_cell NaN = ''nan''"

section \<open>Variant expander\<close>

definition SIZES :: "string list" where
  "SIZES = [''S'', ''M'', ''L'', ''XL'', ''2XL'']"

definition COLORS :: "string list" where
  "COLORS = [''black'', ''white'', ''navy'']"

definition PRICE_BY_SIZE :: "(string \<times> string) list" where
  "PRICE_BY_SIZE = [(''S'', ''24.90''), (''M'', ''24.90''), (''L'', ''24.90''),
                    (''XL'', ''26.90''), (''2XL'', ''26.90'')]"

definition SKU_PREFIX :: string where
  "SKU_PREFIX = ''TEE''"

definition variant_sku :: "string \<Rightarrow> string \<Rightarrow> string \<Rightarrow> string" where
  \<comment> \<open>\<open>f"{SKU_PREFIX}-{color[:1].upper()}{size}"\<close>\<close>
  "variant_sku prefix color size0 = prefix @ ''-'' @ upper (take 1 color) @ size0"

definition variant_row ::
  "string \<Rightarrow> (string \<times> string) list \<Rightarrow> row \<Rightarrow> string \<Rightarrow> cell \<Rightarrow> bool \<Rightarrow> string \<Rightarrow> string \<Rightarrow> row" where
  \<comment> \<open>the dictionary appended in the inner loop of \<open>pod_variants_builder.main\<close>, for the base
      row \<open>r\<close> with title \<open>title0\<close> and body \<open>body\<close>\<close>
  "variant_row prefix price_by_size r title0 body first color size0 =
     (let handle = pod_slug title0;
          vendor = row_get r ''Vendor'' (Str ''Aceru Studio'');
          tags0 = row_get r ''Tags'' (Str '''');
          status = row_get r ''Status'' (Str ''active'');
          sku0 = variant_sku prefix color size0;
          price0 = (case map_of price_by_size size0 of
                      Some p \<Rightarrow> Str p
                    | None \<Rightarrow> row_get r ''Variant Price'' (Str ''24.90''))
      in [(''Handle'', if first then Str handle else Str ''''),
          (''Title'', if first then Str title0 else Str ''''),
          (''Body (HTML)'', if first then body else Str ''''),
          (''Vendor'', if first then vendor else Str ''''),
          (''Type'', if first then Str ''t-shirt'' else Str ''''),
          (''Tags'', if first then tags0 else Str ''''),
          (''Published'', if first then Bool True else Str ''''),
          (''Option1 Name'', Str ''Color''),
          (''Option1 Value'', Str color),
          (''Option2 Name'', Str ''Size''),
          (''Option2 Value'', Str size0),
          (''Variant SKU'', Str sku0),
          (''Variant Grams'', Str ''''),
          (''Variant Inventory Tracker'', Str ''''),
          (''Variant Inventory Qty'', Num 20),
          (''Variant Inventory Policy'', Str ''deny''),
          (''Variant Fulfillment Service'', Str ''manual''),
          (''Variant Price'', price0),
          (''Variant Compare At Price'', Str ''''),
          (''Variant Requires Shipping'', Bool True),
          (''Variant Taxable'', Bool True),
          (''Image Src'', Str ''''),
          (''Image Position'', Str ''''),
          (''Gift Card'', Str ''FALSE''),
          (''SEO Title'', if first then Str (take 70 title0) else Str ''''),
          (''SEO Description'', if first then Str (take 140 (''High-quality '' @ title0)) else Str ''''),
          (''Status'', if first then status else Str ''active'')])"

fun variant_loop ::
  "string \<Rightarrow> (string \<times> string) list \<Rightarrow> row \<Rightarrow> string \<Rightarrow> cell \<Rightarrow> bool \<Rightarrow> (string \<times> string) list \<Rightarrow> row list" where
  \<comment> \<open>the inner loop over \<open>itertools.product(COLORS, SIZES)\<close>, with its flag \<open>first\<close>\<close>
  "variant_loop prefix price_by_size r title0 body first [] = []"
| "variant_loop prefix price_by_size r title0 body first ((color, size0) # cs) =
     variant_row prefix price_by_size r title0 body first color size0
       # variant_loop prefix price_by_size r title0 body False cs"

definition expand_with ::
  "string list \<Rightarrow> string list \<Rightarrow> (string \<times> string) list \<Rightarrow> string \<Rightarrow> row \<Rightarrow> error + row list" where
  \<comment> \<open>the body of the outer loop for one base row, for given option tables\<close>
  "expand_with colors sizes price_by_size prefix r =
     (case row_item r ''Title'' of
        Inl e \<Rightarrow> Inl e
      | Inr t \<Rightarrow>
          (case row_item r ''Body (HTML)'' of
             Inl e \<Rightarrow> Inl e
           | Inr body \<Rightarrow>
               Inr (variant_loop prefix price_by_size r (str_cell t) body True
                      (List.product colors sizes))))"


definition expand_base :: "row \<Rightarrow> error + row list" where
  \<comment> \<open>one base row under the module's \<open>COLORS\<close>, \<open>SIZES\<close>, \<open>PRICE_BY_SIZE\<close> and \<open>SKU_PREFIX\<close>\<close>
  "expand_base r = expand_with COLORS SIZES PRICE_BY_SIZE SKU_PREFIX r"


section \<open>Merge stage\<close>

definition REQUIRED_PRODUCT_COLS :: "string list" where
  "REQUIRED_PRODUCT_COLS = [''Handle'', ''Title'', ''Body (HTML)'', ''Vendor'', ''Status'']"

definition IMAGE_COLS :: "string list" where
  "IMAGE_COLS = [''Handle'', ''Image Src'', ''Image Alt Text'', ''Image Position'']"

definition ensure_cols :: "dataframe \<Rightarrow> string list \<Rightarrow> error + unit" where
  \<comment> \<open>the required columns are a Python set: the order of the missing names in the message
      is the set's iteration order, here the order of the list\<close>
  "ensure_cols df cols =
     (let missing = filter (\<lambda>c. c \<notin> set (df_columns df)) cols
      in if missing \<noteq> [] then Inl (ValueError missing) else Inr ())"

definition ci_column :: "string list \<Rightarrow> string \<Rightarrow> string option" where
  \<comment> \<open>\<open>cols = {c.lower(): c for c in m.columns}\<close>, then \<open>cols[name]\<close>: the last column whose
      lower-cased name is \<open>name\<close>\<close>
  "ci_column cs name =
     (case filter (\<lambda>c. lower c = name) cs of
        [] \<Rightarrow> None
      | x # xs \<Rightarrow> Some (last (x # xs)))"

fun filemap_loop :: "string \<Rightarrow> string \<Rightarrow> (string \<times> string) list \<Rightarrow> row list \<Rightarrow> error + (string \<times> string) list" where
  \<comment> \<open>the loop that fills \<open>filemap\<close> from the rows of the URL table\<close>
  "filemap_loop fcol ucol filemap [] = Inr filemap"
| "filemap_loop fcol ucol filemap (r # rs) =
     (case row_item r fcol of
        Inl e \<Rightarrow> Inl e
      | Inr f \<Rightarrow>
          (case row_item r ucol of
             Inl e \<Rightarrow> Inl e
           | Inr u \<Rightarrow>
               (let fn = strip (str_cell f); url = strip (str_cell u)
                in filemap_loop fcol ucol
                     (if fn \<noteq> [] \<and> url \<noteq> [] then AList.update fn url filemap else filemap) rs)))"

definition build_filemap :: "dataframe option \<Rightarrow> error + (string \<times> string) list" where
  \<comment> \<open>the optional URL table: \<open>None\<close> when the file does not exist\<close>
  "build_filemap urls =
     (case urls of
        None \<Rightarrow> Inr []
      | Some m \<Rightarrow>
          (case (ci_column (df_columns m) ''new_filename'', ci_column (df_columns m) ''url'') of
             (Some fcol, Some ucol) \<Rightarrow> filemap_loop fcol ucol [] (df_rows m)
           | _ \<Rightarrow> Inr []))"

definition resolve_src :: "(string \<times> string) list \<Rightarrow> cell \<Rightarrow> cell" where
  \<comment> \<open>\<open>lambda x: filemap.get(str(x).strip(), x)\<close>\<close>
  "resolve_src filemap x =
     (case map_of filemap (strip (str_cell x)) of Some u \<Rightarrow> Str u | None \<Rightarrow> x)"

definition resolve_images :: "(string \<times> string) list \<Rightarrow> dataframe \<Rightarrow> dataframe" where
  \<comment> \<open>\<open>imgs["Image Src"] = imgs["Image Src"].apply(...)\<close>, done when the map is not empty\<close>
  "resolve_images filemap imgs =
     (if filemap \<noteq> []
      then imgs\<lparr>df_rows := map (\<lambda>r. AList.update ''Image Src''
                                 (resolve_src filemap (row_get r ''Image Src'' NaN)) r) (df_rows imgs)\<rparr>
      else imgs)"

definition add_col :: "string list \<Rightarrow> string \<Rightarrow> string list" where
  \<comment> \<open>\<open>if col not in out_cols: out_cols.append(col)\<close>\<close>
  "add_col out_cols col = (if col \<notin> set out_cols then out_cols @ [col] else out_cols)"

definition merge_out_cols :: "dataframe \<Rightarrow> string list" where
  "merge_out_cols prod0 = foldl add_col (df_columns prod0) [''Image Src'', ''Image Alt Text'', ''Image Position'']"

definition product_row :: "string list \<Rightarrow> row \<Rightarrow> row" where
  \<comment> \<open>\<open>{c: r[c] if c in r else "" for c in out_cols}\<close>\<close>
  "product_row out_cols r =
     map (\<lambda>c. (c, case map_of r c of Some v \<Rightarrow> v | None \<Rightarrow> Str '''')) out_cols"

definition image_row :: "string list \<Rightarrow> row \<Rightarrow> error + row" where
  \<comment> \<open>a copy of the blank template with the handle and the three image fields assigned\<close>
  "image_row out_cols r =
     (let blank_template = map (\<lambda>c. (c, Str '''')) out_cols
      in case row_item r ''Handle'' of
           Inl e \<Rightarrow> Inl e
         | Inr h \<Rightarrow>
             Inr (AList.update ''Image Position'' (row_get r ''Image Position'' (Str ''''))
                   (AList.update ''Image Alt Text'' (row_get r ''Image Alt Text'' (Str ''''))
                     (AList.update ''Image Src'' (row_get r ''Image Src'' (Str ''''))
                       (AList.update ''Handle'' h blank_template)))))"

fun image_rows :: "string list \<Rightarrow> row list \<Rightarrow> error + row list" where
  "image_rows out_cols [] = Inr []"
| "image_rows out_cols (r # rs) =
     (case image_row out_cols r of
        Inl e \<Rightarrow> Inl e
      | Inr d \<Rightarrow>
          (case image_rows out_cols rs of
             Inl e \<Rightarrow> Inl e
           | Inr ds \<Rightarrow> Inr (d # ds)))"

definition align :: "string list \<Rightarrow> row \<Rightarrow> row" where
  \<comment> \<open>a row of \<open>pd.DataFrame(merged_rows, columns=out_cols)\<close>\<close>
  "align out_cols d = map (\<lambda>c. (c, row_get d c NaN)) out_cols"

definition merge_main :: "dataframe \<Rightarrow> dataframe \<Rightarrow> dataframe option \<Rightarrow> error + dataframe" where
  \<comment> \<open>\<open>merge_images_into_products.main\<close> on the product table, the image table and the optional
      URL table: the merged table written to the output file\<close>
  "merge_main prod0 imgs urls =
     (case ensure_cols prod0 REQUIRED_PRODUCT_COLS of
        Inl e \<Rightarrow> Inl e
      | Inr u1 \<Rightarrow>
     (case ensure_cols imgs IMAGE_COLS of
        Inl e \<Rightarrow> Inl e
      | Inr u2 \<Rightarrow>
     (case build_filemap urls of
        Inl e \<Rightarrow> Inl e
      | Inr filemap \<Rightarrow>
          (let imgs1 = resolve_images filemap imgs;
               out_cols = merge_out_cols prod0;
               product_rows = map (product_row out_cols) (df_rows prod0)
           in case image_rows out_cols (df_rows imgs1) of
                Inl e \<Rightarrow> Inl e
              | Inr irs \<Rightarrow>
                  Inr \<lparr>df_columns = out_cols,
                       df_rows = map (align out_cols) (product_rows @ irs)\<rparr>))))"

section \<open>Properties of the string operations\<close>

lemma lower_char_idem: "lower_char (lower_char c) = lower_char c"
  by (simp add: lower_char_def Let_def)

lemma is_space_lower_char: "is_space (lower_char c) = is_space c"
  by (auto simp add: lower_char_def is_space_def Let_def)

lemma alnum_lower_char: "is_alnum c \<Longrightarrow> lower_char c = c"
  by (auto simp add: lower_char_def is_alnum_def Let_def)

lemma alnum_not_space: "is_alnum c \<Longrightarrow> \<not> is_space c"
  by (auto simp add: is_space_def is_alnum_def Let_def)

lemma hyphen_facts:
  "\<not> is_space CHR ''-''" "lower_char CHR ''-'' = CHR ''-''" "\<not> is_alnum CHR ''-''"
  by (simp_all add: is_space_def lower_char_def is_alnum_def)

lemma lower_idem: "lower (lower s) = lower s"
  by (simp add: lower_def lower_char_idem)

lemma dropWhile_space_lower: "dropWhile is_space (lower s) = lower (dropWhile is_space s)"
  by (induction s) (simp_all add: lower_def is_space_lower_char)

lemma strip_lower: "strip (lower s) = lower (strip s)"
proof -
  have "rev (lower s) = lower (rev s)" for s by (simp add: lower_def rev_map)
  then show ?thesis
    by (simp add: strip_def strip_chars_def dropWhile_space_lower)
qed

lemma split_ws_Nil: "\<forall>c\<in>set s. is_space c \<Longrightarrow> split_ws s = []"
proof -
  assume "\<forall>c\<in>set s. is_space c"
  then have h: "dropWhile is_space s = []" by simp
  show ?thesis by (subst split_ws.simps, subst h) simp
qed

lemma split_ws_dropWhile: "split_ws (dropWhile is_space s) = split_ws s"
  by (subst split_ws.simps, subst (2) split_ws.simps) simp

lemma split_ws_append_space:
  "\<forall>c\<in>set ws. is_space c \<Longrightarrow> split_ws (s @ ws) = split_ws s"
proof (induction s rule: split_ws.induct)
  case (1 s)
  note ws = \<open>\<forall>c\<in>set ws. is_space c\<close>
  show ?case
  proof (cases "dropWhile is_space s")
    case Nil
    then have "\<forall>c\<in>set (s @ ws). is_space c" using ws by (auto simp: dropWhile_eq_Nil_conv)
    then have "split_ws (s @ ws) = []" by (rule split_ws_Nil)
    moreover have "split_ws s = []" by (subst split_ws.simps, subst Nil) simp
    ultimately show ?thesis by simp
  next
    case (Cons c cs)
    have nsp: "\<not> is_space c"
      using hd_dropWhile [of is_space s] Cons by simp
    have "c \<in> set (dropWhile is_space s)" by (simp add: Cons)
    then have "c \<in> set s" by (rule set_dropWhileD)
    then have "dropWhile is_space (s @ ws) = dropWhile is_space s @ ws"
      using nsp by (rule dropWhile_append1)
    then have dw: "dropWhile is_space (s @ ws) = c # (cs @ ws)"
      by (simp only: Cons append_Cons)
    have tk: "takeWhile (\<lambda>x. \<not> is_space x) (cs @ ws) = takeWhile (\<lambda>x. \<not> is_space x) cs"
    proof (cases "\<forall>x\<in>set cs. \<not> is_space x")
      case True
      have t1: "takeWhile (\<lambda>x. \<not> is_space x) ws = []"
        using ws by (cases ws) simp_all
      have t2: "takeWhile (\<lambda>x. \<not> is_space x) (cs @ ws) = cs @ takeWhile (\<lambda>x. \<not> is_space x) ws"
        using True by simp
      have t3: "takeWhile (\<lambda>x. \<not> is_space x) (cs @ ws) = cs"
        by (simp only: t2 t1 append_Nil2)
      have t4: "takeWhile (\<lambda>x. \<not> is_space x) cs = cs"
        using True by simp
      show ?thesis by (rule trans [OF t3 t4 [symmetric]])
    next
      case False
      then obtain x where "x \<in> set cs" "is_space x" by blast
      then show ?thesis by (simp add: takeWhile_append1)
    qed
    have IH: "split_ws (dropWhile (\<lambda>x. \<not> is_space x) cs @ ws) = split_ws (dropWhile (\<lambda>x. \<not> is_space x) cs)"
      using 1(1)[OF Cons ws] .
    have dr: "split_ws (dropWhile (\<lambda>x. \<not> is_space x) (cs @ ws)) = split_ws (dropWhile (\<lambda>x. \<not> is_space x) cs)"
    proof (cases "\<forall>x\<in>set cs. \<not> is_space x")
      case True
      then have e1: "dropWhile (\<lambda>x. \<not> is_space x) (cs @ ws) = dropWhile (\<lambda>x. \<not> is_space x) ws"
        by (simp add: dropWhile_append)
      have e2: "dropWhile (\<lambda>x. \<not> is_space x) cs = []" using True by simp
      have "\<forall>c\<in>set (dropWhile (\<lambda>x. \<not> is_space x) ws). is_space c"
        using ws by (meson set_dropWhileD)
      then have e3: "split_ws (dropWhile (\<lambda>x. \<not> is_space x) ws) = []"
        by (rule split_ws_Nil)
      have e4: "split_ws [] = []" by (rule split_ws_Nil) simp
      show ?thesis by (simp only: e1 e2 e3 e4)
    next
      case False
      then have "dropWhile (\<lambda>x. \<not> is_space x) (cs @ ws) = dropWhile (\<lambda>x. \<not> is_space x) cs @ ws"
        by (auto simp add: dropWhile_append)
      then show ?thesis using IH by simp
    qed
    have L: "split_ws (s @ ws) = (c # takeWhile (\<lambda>x. \<not> is_space x) (cs @ ws))
               # split_ws (dropWhile (\<lambda>x. \<not> is_space x) (cs @ ws))"
      by (subst split_ws.simps, subst dw) simp
    have R: "split_ws s = (c # takeWhile (\<lambda>x. \<not> is_space x) cs)
               # split_ws (dropWhile (\<lambda>x. \<not> is_space x) cs)"
      by (subst split_ws.simps, subst Cons) simp
    show ?thesis unfolding L R tk dr ..
  qed
qed

lemma split_ws_strip: "split_ws (strip s) = split_ws s"
proof -
  let ?t = "dropWhile is_space s"
  have "?t = rev (dropWhile is_space (rev ?t)) @ rev (takeWhile is_space (rev ?t))"
    by (metis rev_append rev_rev_ident takeWhile_dropWhile_id)
  moreover have "\<forall>c\<in>set (rev (takeWhile is_space (rev ?t))). is_space c"
    by (auto dest: set_takeWhileD)
  ultimately have "split_ws (rev (dropWhile is_space (rev ?t))) = split_ws ?t"
    by (metis split_ws_append_space)
  then show ?thesis by (simp add: strip_def strip_chars_def split_ws_dropWhile)
qed

lemma image_handle_eq: "image_handle s = ecom_slug s"
  by (simp add: image_handle_def ecom_slug_def strip_lower[symmetric] split_ws_strip)

lemma split_ws_tokens:
  "w \<in> set (split_ws s) \<Longrightarrow> w \<noteq> [] \<and> (\<forall>c\<in>set w. \<not> is_space c) \<and> set w \<subseteq> set s"
proof (induction s rule: split_ws.induct)
  case (1 s)
  show ?case
  proof (cases "dropWhile is_space s")
    case Nil
    have "split_ws s = []" by (subst split_ws.simps, subst Nil) simp
    with 1(2) show ?thesis by simp
  next
    case (Cons c cs)
    have R: "split_ws s = (c # takeWhile (\<lambda>x. \<not> is_space x) cs)
               # split_ws (dropWhile (\<lambda>x. \<not> is_space x) cs)"
      by (subst split_ws.simps, subst Cons) simp
    have nsp: "\<not> is_space c"
      using hd_dropWhile [of is_space s] Cons by simp
    have "set (dropWhile is_space s) \<subseteq> set s"
      by (auto dest: set_dropWhileD)
    then have sub: "set (c # cs) \<subseteq> set s"
      unfolding Cons .
    from 1(2) have "w \<in> set ((c # takeWhile (\<lambda>x. \<not> is_space x) cs)
               # split_ws (dropWhile (\<lambda>x. \<not> is_space x) cs))"
      unfolding R .
    then consider "w = c # takeWhile (\<lambda>x. \<not> is_space x) cs"
      | "w \<in> set (split_ws (dropWhile (\<lambda>x. \<not> is_space x) cs))" by auto
    then show ?thesis
    proof cases
      case 1
      have "set (takeWhile (\<lambda>x. \<not> is_space x) cs) \<subseteq> set cs"
        by (auto dest: set_takeWhileD)
      moreover have "\<forall>x\<in>set (takeWhile (\<lambda>x. \<not> is_space x) cs). \<not> is_space x"
        by (auto dest: set_takeWhileD)
      ultimately show ?thesis using 1 nsp sub by auto
    next
      case 2
      from "1.IH" [OF Cons 2]
      have "w \<noteq> [] \<and> (\<forall>c\<in>set w. \<not> is_space c) \<and> set w \<subseteq> set (dropWhile (\<lambda>x. \<not> is_space x) cs)" .
      moreover have "set (dropWhile (\<lambda>x. \<not> is_space x) cs) \<subseteq> set cs"
        by (auto dest: set_dropWhileD)
      ultimately show ?thesis using sub by auto
    qed
  qed
qed

lemma split_ws_single:
  assumes "t \<noteq> []" and "\<forall>c\<in>set t. \<not> is_space c"
  shows "split_ws t = [t]"
proof -
  from assms obtain c cs where t: "t = c # cs" by (cases t) auto
  have d: "dropWhile is_space t = c # cs" using assms t by simp
  have tk: "takeWhile (\<lambda>x. \<not> is_space x) cs = cs" using assms t by simp
  have dr: "dropWhile (\<lambda>x. \<not> is_space x) cs = []" using assms t by simp
  have e: "split_ws [] = []" by (rule split_ws_Nil) simp
  have "split_ws t = (c # takeWhile (\<lambda>x. \<not> is_space x) cs)
               # split_ws (dropWhile (\<lambda>x. \<not> is_space x) cs)"
    by (subst split_ws.simps, subst d) simp
  then show ?thesis by (simp only: tk dr e t)
qed

lemma join_chars: "c \<in> set (join sep ws) \<Longrightarrow> c \<in> set sep \<or> (\<exists>w\<in>set ws. c \<in> set w)"
  by (induction sep ws rule: join.induct) auto

lemma join_nonempty: "ws \<noteq> [] \<Longrightarrow> \<forall>w\<in>set ws. w \<noteq> [] \<Longrightarrow> join sep ws \<noteq> []"
  by (induction sep ws rule: join.induct) auto

lemma lower_fixed: "\<forall>c\<in>set t. lower_char c = c \<Longrightarrow> lower t = t"
  by (simp add: lower_def map_idI)

lemma join_no_space:
  assumes "\<forall>w\<in>set ws. \<forall>c\<in>set w. \<not> is_space c"
  shows "\<forall>c\<in>set (join ''-'' ws). \<not> is_space c"
proof
  fix c assume "c \<in> set (join ''-'' ws)"
  then have "c \<in> set ''-'' \<or> (\<exists>w\<in>set ws. c \<in> set w)" by (rule join_chars)
  then show "\<not> is_space c"
  proof
    assume "c \<in> set ''-''"
    then have "c = CHR ''-''" by simp
    then show ?thesis by (simp add: hyphen_facts)
  next
    assume "\<exists>w\<in>set ws. c \<in> set w"
    then show ?thesis using assms by blast
  qed
qed

lemma join_lower_fixed:
  assumes "\<forall>w\<in>set ws. \<forall>c\<in>set w. lower_char c = c"
  shows "lower (join ''-'' ws) = join ''-'' ws"
proof (rule lower_fixed, rule ballI)
  fix c assume "c \<in> set (join ''-'' ws)"
  then have "c \<in> set ''-'' \<or> (\<exists>w\<in>set ws. c \<in> set w)" by (rule join_chars)
  then show "lower_char c = c"
  proof
    assume "c \<in> set ''-''"
    then have "c = CHR ''-''" by simp
    then show ?thesis by (simp add: hyphen_facts)
  next
    assume "\<exists>w\<in>set ws. c \<in> set w"
    then show ?thesis using assms by blast
  qed
qed

lemma split_ws_join:
  assumes "\<forall>w\<in>set ws. w \<noteq> []" and "\<forall>w\<in>set ws. \<forall>c\<in>set w. \<not> is_space c"
  shows "join ''-'' (split_ws (join ''-'' ws)) = join ''-'' ws"
proof (cases "ws = []")
  case True
  have "split_ws [] = []" by (rule split_ws_Nil) simp
  with True show ?thesis by simp
next
  case False
  then have "join ''-'' ws \<noteq> []" using assms(1) by (rule join_nonempty)
  moreover have "\<forall>c\<in>set (join ''-'' ws). \<not> is_space c"
    using assms(2) by (rule join_no_space)
  ultimately have "split_ws (join ''-'' ws) = [join ''-'' ws]" by (rule split_ws_single)
  then show ?thesis by simp
qed

lemma lower_tokens_fixed: "w \<in> set (split_ws (lower s)) \<Longrightarrow> c \<in> set w \<Longrightarrow> lower_char c = c"
proof -
  assume "w \<in> set (split_ws (lower s))" and c: "c \<in> set w"
  then have "set w \<subseteq> set (lower s)" using split_ws_tokens by blast
  with c have "c \<in> lower_char ` set s" by (auto simp: lower_def)
  then obtain x where "c = lower_char x" by blast
  then show ?thesis by (simp add: lower_char_idem)
qed

lemma slug_fixed_point:
  "join ''-'' (split_ws (strip (lower (join ''-'' (split_ws (strip (lower s))))))) =
   join ''-'' (split_ws (strip (lower s)))"
proof -
  let ?ws = "split_ws (lower s)"
  have a: "\<forall>w\<in>set ?ws. w \<noteq> []" using split_ws_tokens by blast
  have b: "\<forall>w\<in>set ?ws. \<forall>c\<in>set w. \<not> is_space c" using split_ws_tokens by blast
  have c: "\<forall>w\<in>set ?ws. \<forall>c\<in>set w. lower_char c = c" using lower_tokens_fixed by blast
  have "join ''-'' (split_ws (strip (lower (join ''-'' ?ws)))) = join ''-'' ?ws"
    by (simp only: split_ws_strip join_lower_fixed [OF c] split_ws_join [OF a b])
  then show ?thesis by (simp only: split_ws_strip)
qed

lemma ecom_slug_idem: "ecom_slug (ecom_slug s) = ecom_slug s"
  unfolding ecom_slug_def by (rule slug_fixed_point)

lemma no_double_hyphen_tl: "no_double_hyphen (a # v) \<Longrightarrow> no_double_hyphen v"
  by (cases v) simp_all

lemma no_double_hyphen_dropWhile: "no_double_hyphen v \<Longrightarrow> no_double_hyphen (dropWhile Q v)"
  by (induction v) (auto dest: no_double_hyphen_tl)

lemma no_double_hyphen_take: "no_double_hyphen v \<Longrightarrow> no_double_hyphen (take m v)"
proof (induction v arbitrary: m rule: no_double_hyphen.induct)
  case (1 a b cs)
  show ?case
  proof (cases m)
    case 0
    then show ?thesis by simp
  next
    case (Suc k)
    note m = Suc
    show ?thesis
    proof (cases k)
      case 0
      then show ?thesis using m by simp
    next
      case (Suc j)
      have "no_double_hyphen (take k (b # cs))" using 1 by simp
      then show ?thesis using 1(2) m Suc by simp
    qed
  qed
qed (simp_all add: take_Cons split: nat.split)

lemma rstrip_take: "rev (dropWhile Q (rev v)) = take (length v - length (takeWhile Q (rev v))) v"
proof -
  have "dropWhile Q (rev v) = drop (length (takeWhile Q (rev v))) (rev v)"
    by (rule dropWhile_eq_drop)
  then show ?thesis by (simp add: rev_drop)
qed

lemma no_double_hyphen_strip: "no_double_hyphen v \<Longrightarrow> no_double_hyphen (strip_chars Q v)"
  unfolding strip_chars_def rstrip_take
  by (intro no_double_hyphen_take no_double_hyphen_dropWhile)

lemma set_strip_chars: "set (strip_chars Q v) \<subseteq> set v"
proof -
  have "set (dropWhile Q (rev (dropWhile Q v))) \<subseteq> set (rev (dropWhile Q v))"
    by (auto dest: set_dropWhileD)
  moreover have "set (dropWhile Q v) \<subseteq> set v"
    by (auto dest: set_dropWhileD)
  ultimately show ?thesis by (simp add: strip_chars_def)
qed

lemma strip_chars_none: "\<forall>c\<in>set v. \<not> Q c \<Longrightarrow> strip_chars Q v = v"
proof -
  assume a: "\<forall>c\<in>set v. \<not> Q c"
  then have "dropWhile Q v = v" by (cases v) simp_all
  moreover have "dropWhile Q (rev v) = rev v" using a by (cases "rev v") (simp, fastforce)
  ultimately show ?thesis by (simp add: strip_chars_def)
qed

lemma dropWhile_last: "dropWhile Q y \<noteq> [] \<Longrightarrow> last (dropWhile Q y) = last y"
  by (induction y) (auto split: if_splits)

lemma strip_chars_idem: "strip_chars Q (strip_chars Q v) = strip_chars Q v"
proof -
  let ?y = "dropWhile Q v"
  let ?z = "dropWhile Q (rev ?y)"
  have w: "strip_chars Q v = rev ?z" by (simp add: strip_chars_def)
  have "dropWhile Q (rev ?z) = rev ?z"
  proof (cases "?z = []")
    case True
    show ?thesis by (simp only: True rev.simps dropWhile.simps)
  next
    case False
    have y: "?y \<noteq> []"
    proof
      assume e: "?y = []"
      have "?z = []" by (simp only: e rev.simps dropWhile.simps)
      with False show False by (rule notE)
    qed
    have "last ?z = last (rev ?y)" using False by (rule dropWhile_last)
    also have "\<dots> = hd ?y" using y by (simp add: last_rev)
    finally have "hd (rev ?z) = hd ?y" using False by (simp add: hd_rev)
    moreover have "\<not> Q (hd ?y)" using y by (rule hd_dropWhile)
    ultimately have "\<not> Q (hd (rev ?z))" by simp
    then show ?thesis using False by (cases "rev ?z") simp_all
  qed
  then have "strip_chars Q (rev ?z) = rev (dropWhile Q (rev (rev ?z)))"
    by (simp only: strip_chars_def)
  also have "\<dots> = rev ?z" by simp
  finally show ?thesis by (simp only: w)
qed

lemma re_sub_runs_chars:
  "c \<in> set (re_sub_runs P b s) \<Longrightarrow> c = CHR ''-'' \<or> (c \<in> set s \<and> \<not> P c)"
  by (induction P b s rule: re_sub_runs.induct) (auto split: if_splits)

lemma re_sub_runs_shape:
  "P CHR ''-'' \<Longrightarrow>
   no_double_hyphen (re_sub_runs P b s) \<and>
   (b \<longrightarrow> (case re_sub_runs P b s of [] \<Rightarrow> True | c # _ \<Rightarrow> c \<noteq> CHR ''-''))"
proof (induction s arbitrary: b)
  case Nil
  then show ?case by simp
next
  case (Cons a s)
  show ?case
  proof (cases "P a")
    case True
    from Cons.IH [OF Cons.prems, of True]
    have ih: "no_double_hyphen (re_sub_runs P True s)"
      "(case re_sub_runs P True s of [] \<Rightarrow> True | c # _ \<Rightarrow> c \<noteq> CHR ''-'')" by simp_all
    show ?thesis
    proof (cases b)
      case True
      then show ?thesis using \<open>P a\<close> ih by simp
    next
      case False
      then show ?thesis using \<open>P a\<close> ih by (cases "re_sub_runs P True s") simp_all
    qed
  next
    case False
    from Cons.IH [OF Cons.prems, of False]
    have ih: "no_double_hyphen (re_sub_runs P False s)" by simp
    have "a \<noteq> CHR ''-''" using False Cons.prems by auto
    then show ?thesis using False ih by (cases "re_sub_runs P False s") simp_all
  qed
qed

lemma re_sub_hyphens_fixed: "no_double_hyphen v \<Longrightarrow> re_sub_hyphens v = v"
  by (induction v rule: re_sub_hyphens.induct) auto

lemma re_sub_runs_fixed:
  "no_double_hyphen v \<Longrightarrow> \<forall>c\<in>set v. P c \<longrightarrow> c = CHR ''-'' \<Longrightarrow>
   (b \<longrightarrow> (case v of [] \<Rightarrow> True | c # _ \<Rightarrow> \<not> P c)) \<Longrightarrow> re_sub_runs P b v = v"
proof (induction v arbitrary: b)
  case Nil
  then show ?case by simp
next
  case (Cons a v)
  have nd: "no_double_hyphen v" using Cons.prems(1) by (rule no_double_hyphen_tl)
  have ch: "\<forall>c\<in>set v. P c \<longrightarrow> c = CHR ''-''" using Cons.prems(2) by simp
  show ?case
  proof (cases "P a")
    case True
    then have a: "a = CHR ''-''" using Cons.prems(2) by simp
    have nb: "\<not> b" using True Cons.prems(3) by auto
    have "case v of [] \<Rightarrow> True | c # _ \<Rightarrow> \<not> P c"
    proof (cases v)
      case Nil
      then show ?thesis by simp
    next
      case (Cons d ds)
      then have "d \<noteq> CHR ''-''" using Cons.prems(1) a by simp
      moreover have "P d \<longrightarrow> d = CHR ''-''" using ch Cons by simp
      ultimately show ?thesis using Cons by auto
    qed
    then have "re_sub_runs P True v = v" using Cons.IH [OF nd ch, of True] by simp
    then show ?thesis using True nb a by simp
  next
    case False
    have "re_sub_runs P False v = v" using Cons.IH [OF nd ch, of False] by simp
    then show ?thesis using False by simp
  qed
qed


section \<open>Properties of the slug functions\<close>

lemma image_slug_item: "image_slug ''item'' = ''item''"
  by code_simp

lemma image_slug_core_fixed:
  assumes nd: "no_double_hyphen v"
    and ch: "\<forall>c\<in>set v. is_alnum c \<or> c = CHR ''-''"
    and st: "strip_chars (\<lambda>c. c = CHR ''-'') v = v"
    and ne: "v \<noteq> []"
  shows "image_slug v = v"
proof -
  have "\<forall>c\<in>set v. lower_char c = c"
    using ch alnum_lower_char hyphen_facts(2) by blast
  then have l: "lower v = v" by (rule lower_fixed)
  have "\<forall>c\<in>set v. \<not> is_space c"
    using ch alnum_not_space hyphen_facts(1) by blast
  then have s: "strip v = v" unfolding strip_def by (rule strip_chars_none)
  have "\<forall>c\<in>set v. \<not> is_alnum c \<longrightarrow> c = CHR ''-''" using ch by blast
  then have r: "re_sub_runs (\<lambda>c. \<not> is_alnum c) False v = v"
    using nd by (intro re_sub_runs_fixed) simp_all
  have h: "re_sub_hyphens v = v" using nd by (rule re_sub_hyphens_fixed)
  show ?thesis
    unfolding image_slug_def Let_def l s r h st using ne by simp
qed

lemma image_slug_idem: "image_slug (image_slug s) = image_slug s"
proof -
  let ?u = "re_sub_runs (\<lambda>c. \<not> is_alnum c) False (strip (lower s))"
  let ?v = "strip_chars (\<lambda>c. c = CHR ''-'') ?u"
  have shape: "no_double_hyphen ?u"
    using re_sub_runs_shape [of "\<lambda>c. \<not> is_alnum c" False "strip (lower s)"]
    by (simp add: hyphen_facts)
  then have h: "re_sub_hyphens ?u = ?u" by (rule re_sub_hyphens_fixed)
  have res: "image_slug s = (if ?v = [] then ''item'' else ?v)"
    unfolding image_slug_def Let_def h ..
  show ?thesis
  proof (cases "?v = []")
    case True
    then have "image_slug s = ''item''" using res by simp
    then show ?thesis by (simp only: image_slug_item)
  next
    case False
    then have e: "image_slug s = ?v" using res by simp
    have nd: "no_double_hyphen ?v" using shape by (rule no_double_hyphen_strip)
    have ch: "\<forall>c\<in>set ?v. is_alnum c \<or> c = CHR ''-''"
    proof
      fix c assume "c \<in> set ?v"
      then have "c \<in> set ?u" using set_strip_chars by blast
      then have "c = CHR ''-'' \<or> (c \<in> set (strip (lower s)) \<and> \<not> \<not> is_alnum c)"
        by (rule re_sub_runs_chars)
      then show "is_alnum c \<or> c = CHR ''-''" by blast
    qed
    have "image_slug ?v = ?v"
      using nd ch strip_chars_idem False by (rule image_slug_core_fixed)
    then show ?thesis by (simp only: e)
  qed
qed

lemma image_slug_nonempty: "image_slug s \<noteq> []"
  by (simp add: image_slug_def Let_def)


lemma pod_slug_eq: "pod_slug s = ecom_slug s"
  by (simp add: pod_slug_def ecom_slug_def)


section \<open>Handles across the stages\<close>

text \<open>
  C1, as stated: the slug of the Schema Normalizer, the slug of the Variant Expander and
  \<open>image_seo_prep.slug\<close> are the same function of the title. They are not: on a title with
  a character outside \<open>[a-z0-9]\<close> and whitespace the first two keep it, the third replaces
  it by a hyphen.
\<close>

theorem slug_implementations_differ:
  "ecom_slug ''Mugs & Cups'' = ''mugs-&-cups'' \<and> pod_slug ''Mugs & Cups'' = ''mugs-&-cups'' \<and>
   image_slug ''Mugs & Cups'' = ''mugs-cups''"
  by code_simp

text \<open>
  C1, amended: every stage that derives a handle from a title derives the same one. The
  handle written by the Schema Normalizer, the handle written by the Variant Expander and
  the handle written by the image-mapping stage, which computes it in \<open>main\<close> without calling
  its \<open>slug\<close>, are equal as functions of the title.
\<close>

theorem handle_derivations_agree:
  "pod_slug t = ecom_slug t \<and> image_handle t = ecom_slug t"
  by (simp add: pod_slug_eq image_handle_eq)

section \<open>Idempotence of the slugs and the empty result\<close>

text \<open>
  C6: each slug is idempotent and never returns the empty string. Idempotence holds for the
  three implementations, and \<open>image_seo_prep.slug\<close> never returns the empty string: it
  falls back to \<open>item\<close>. The slug of the Schema Normalizer and the slug of the Variant
  Expander have no fallback: a title of blanks only, and the empty title, give the empty handle.
\<close>

theorem slug_idempotent_empty_on_blank_title:
  "ecom_slug (ecom_slug s) = ecom_slug s \<and> pod_slug (pod_slug s) = pod_slug s \<and>
   image_slug (image_slug s) = image_slug s \<and> image_slug s \<noteq> [] \<and>
   image_slug ''   '' = ''item'' \<and>
   ecom_slug ''   '' = [] \<and> pod_slug ''   '' = [] \<and> ecom_slug [] = [] \<and> pod_slug [] = []"
proof -
  have "image_slug ''   '' = ''item'' \<and>
   ecom_slug ''   '' = [] \<and> pod_slug ''   '' = [] \<and> ecom_slug [] = [] \<and> pod_slug [] = []"
    by code_simp
  then show ?thesis
    by (simp add: ecom_slug_idem pod_slug_eq image_slug_idem image_slug_nonempty)
qed

section \<open>Budget guard: reservations\<close>

lemma reservations_fields:
  "total (reservations g ns) = total g \<and> est (reservations g ns) = est g"
  by (induction ns arbitrary: g) (auto simp: check_and_book_def Let_def)

lemma reservations_bounds:
  "0 \<le> est g \<Longrightarrow> \<forall>n\<in>set ns. 0 \<le> n \<Longrightarrow>
   spent g \<le> spent (reservations g ns) \<and>
   (spent g \<le> total g \<longrightarrow> spent (reservations g ns) \<le> total g)"
proof (induction ns arbitrary: g)
  case Nil
  then show ?case by simp
next
  case (Cons n ns)
  let ?g' = "case check_and_book g n of Inl e \<Rightarrow> g | Inr g' \<Rightarrow> g'"
  have n: "0 \<le> est g * real_of_int n" using Cons.prems by simp
  have e: "est ?g' = est g" by (simp add: check_and_book_def Let_def)
  have s: "spent g \<le> spent ?g'" using n by (simp add: check_and_book_def Let_def)
  have t: "total ?g' = total g" by (simp add: check_and_book_def Let_def)
  have b: "spent g \<le> total g \<longrightarrow> spent ?g' \<le> total ?g'"
    by (simp add: check_and_book_def Let_def)
  have ih: "spent ?g' \<le> spent (reservations ?g' ns) \<and>
   (spent ?g' \<le> total ?g' \<longrightarrow> spent (reservations ?g' ns) \<le> total ?g')"
    using Cons.IH [of ?g'] Cons.prems e by simp
  show ?case using ih s b t by auto
qed

lemma rejection_persists:
  assumes "0 \<le> est g" and "\<forall>k\<in>set ns. 0 \<le> k"
    and r: "check_and_book g n = Inl e" and nm: "n \<le> m"
  shows "check_and_book (reservations g ns) m = Inl e"
proof -
  from r have e: "e = BudgetCapHit" and gt: "spent g + est g * real_of_int n > total g"
    by (auto simp: check_and_book_def Let_def split: if_splits)
  have "est g * real_of_int n \<le> est g * real_of_int m"
    using assms(1) nm by (simp add: mult_left_mono)
  moreover have "spent g \<le> spent (reservations g ns)"
    using reservations_bounds assms(1,2) by blast
  ultimately have "spent (reservations g ns) + est g * real_of_int m > total g"
    using gt by linarith
  then show ?thesis using reservations_fields [of g ns] e
    by (simp add: check_and_book_def Let_def)
qed

text \<open>
  C2, as stated, ends with: once the ceiling would be exceeded, every further reservation
  is rejected. A rejected reservation leaves the guard as it was, so a later reservation
  of fewer calls can still fit: with ceiling 10 and estimate 1, twenty calls are rejected
  and one call is then accepted. And the claim is for every call count: the count is a
  Python integer, and a negative one lowers \<open>spent\<close>.
\<close>

theorem smaller_reservation_accepted_after_rejection:
  "check_and_book (budget_init 10 1) 20 = Inl BudgetCapHit \<and>
   check_and_book (budget_init 10 1) 1 = Inr \<lparr>total = 10, spent = 1, est = 1\<rparr> \<and>
   check_and_book \<lparr>total = 10, spent = 5, est = 1\<rparr> (- 1) = Inr \<lparr>total = 10, spent = 4, est = 1\<rparr>"
  by (simp add: check_and_book_def budget_init_def)

text \<open>
  C2, amended. A reservation of \<open>n\<close> calls computes
  \<open>projected = spent + est * n\<close>; if \<open>projected\<close> exceeds the ceiling it fails and the guard
  is unchanged, otherwise \<open>spent\<close> becomes \<open>projected\<close>; \<open>check_and_book\<close> and \<open>book\<close> are
  the same operation. With an estimate that is not negative and call counts that are not
  negative, over any sequence of reservations \<open>spent\<close> does not decrease; from a guard
  whose \<open>spent\<close> is within the ceiling it stays within the ceiling (so it never exceeds
  it by one call's estimate); and once a reservation of \<open>n\<close> calls is rejected, every
  later reservation of at least \<open>n\<close> calls is rejected.
\<close>

theorem budget_guard_reservations:
  assumes "0 \<le> est g" and "\<forall>k\<in>set ns. 0 \<le> k" and "spent g \<le> total g"
  shows "check_and_book g n =
           (if spent g + est g * real_of_int n > total g then Inl BudgetCapHit
            else Inr (g\<lparr>spent := spent g + est g * real_of_int n\<rparr>)) \<and>
         book g n = check_and_book g n \<and>
         spent g \<le> spent (reservations g ns) \<and>
         spent (reservations g ns) \<le> total g \<and>
         spent (reservations g ns) \<le> total g + est g \<and>
         (\<forall>m e. check_and_book g n = Inl e \<and> n \<le> m \<longrightarrow>
                check_and_book (reservations g ns) m = Inl e)"
proof -
  have 1: "check_and_book g n =
           (if spent g + est g * real_of_int n > total g then Inl BudgetCapHit
            else Inr (g\<lparr>spent := spent g + est g * real_of_int n\<rparr>))"
    by (simp add: check_and_book_def Let_def)
  have 2: "book g n = check_and_book g n"
    by (simp add: book_def check_and_book_def)
  have 3: "spent g \<le> spent (reservations g ns)"
    using reservations_bounds assms by blast
  have 4: "spent (reservations g ns) \<le> total g"
    using reservations_bounds assms by blast
  have 5: "spent (reservations g ns) \<le> total g + est g"
    using 4 assms(1) by linarith
  have 6: "\<forall>m e. check_and_book g n = Inl e \<and> n \<le> m \<longrightarrow>
                check_and_book (reservations g ns) m = Inl e"
    using rejection_persists [OF assms(1,2)] by blast
  show ?thesis using 1 2 3 4 5 6 by blast
qed

theorem budget_guard_reservations_witness:
  "spent (reservations \<lparr>total = 2/100, spent = 15/1000, est = 15/1000\<rparr> [1, 1]) \<le> 2/100 \<and>
   15/1000 \<le> spent (reservations \<lparr>total = 2/100, spent = 15/1000, est = 15/1000\<rparr> [1, 1]) \<and>
   check_and_book \<lparr>total = 2/100, spent = 15/1000, est = 15/1000\<rparr> 1 = Inl BudgetCapHit \<and>
   check_and_book (reservations \<lparr>total = 2/100, spent = 15/1000, est = 15/1000\<rparr> [1, 1]) 1
     = Inl BudgetCapHit"
proof -
  let ?g = "\<lparr>total = 2/100, spent = 15/1000, est = 15/1000 :: real\<rparr>"
  have h1: "0 \<le> est ?g" by simp
  have h2: "\<forall>k\<in>set [1, 1 :: int]. 0 \<le> k" by simp
  have h3: "spent ?g \<le> total ?g" by simp
  have r: "check_and_book ?g 1 = Inl BudgetCapHit"
    by (simp add: check_and_book_def Let_def)
  from budget_guard_reservations [OF h1 h2 h3, of 1] r
  show ?thesis by simp
qed

section \<open>Row enrichment: one output row per input row, and the fallback\<close>









section \<open>Row enrichment: the rows of a batch and the fallback copy\<close>




section \<open>Row enrichment: a rejected reservation\<close>

text \<open>
  C4: a reservation the budget guard rejects aborts the run, and row enrichment never
  treats it as a recoverable failure of the row. In \<open>generate_product_copy\<close> the
  reservation is made inside \<open>llm_json\<close>, inside the \<open>try\<close> block whose handler catches
  every \<open>Exception\<close>: the rejection is caught like a provider failure. With a ceiling below
  one call's estimate, every row is rejected, every row gets the fallback copy, no request
  is issued and the run completes with one output row per input row.
\<close>

theorem budget_rejection_degrades_to_fallback:
  "fst (llm_json P \<lparr>budget = budget_init 0 (1/100), issued = 0\<rparr> q) = Inl BudgetCapHit \<and>
   snd (generate_product_copy P vendor \<lparr>budget = budget_init 0 (1/100), issued = 0\<rparr> [r1, r2])
     = \<lparr>budget = budget_init 0 (1/100), issued = 0\<rparr> \<and>
   map Title (fst (generate_product_copy P vendor
       \<lparr>budget = budget_init 0 (1/100), issued = 0\<rparr> [r1, r2]))
     = [JStr (take 70 (strip (title r1))), JStr (take 70 (strip (title r2)))] \<and>
   map (\<lambda>row. (Title row, Body_HTML row, Tags row))
       (fst (generate_product_copy P vendor
          \<lparr>budget = budget_init 0 (1/100), issued = 0\<rparr> [r1, r2]))
     = [fallback_copy (strip (title r1)) (strip (features r1)) (strip (materials r1)) (strip (tags r1)),
        fallback_copy (strip (title r2)) (strip (features r2)) (strip (materials r2)) (strip (tags r2))]"
proof -
  let ?st = "\<lparr>budget = budget_init 0 (1/100), issued = 0\<rparr>"
  have l: "llm_json P ?st q = (Inl BudgetCapHit, ?st)" for q
    by (simp add: llm_json_def check_and_book_def budget_init_def Let_def)
  have c: "copy_step P vendor ?st r =
      (\<lparr>Title = fst (fallback_copy (strip (title r)) (strip (features r)) (strip (materials r)) (strip (tags r))),
        Body_HTML = fst (snd (fallback_copy (strip (title r)) (strip (features r)) (strip (materials r)) (strip (tags r)))),
        Vendor = vendor, Type = '''',
        Tags = snd (snd (fallback_copy (strip (title r)) (strip (features r)) (strip (materials r)) (strip (tags r)))),
        Published = True, Option1_Name = ''Title'',
           Option1_Value = ''Default Title'', Variant_SKU = strip (sku r), Variant_Price = price r,
           Variant_Inventory_Qty = 10, Variant_Inventory_Policy = ''deny'',
           Variant_Fulfillment_Service = ''manual'', Variant_Requires_Shipping = True,
           Variant_Taxable = True, Image_Src = '''', Variant_Grams = '''', Cost_per_item = '''',
           Status = ''active''\<rparr>, ?st)" for r
    by (simp add: copy_step_def l Let_def split: prod.splits)
  show ?thesis
    by (simp add: l c Let_def fallback_copy_def)
qed

section \<open>Variant expander: the emitted rows\<close>

lemma variant_loop_length:
  "length (variant_loop prefix pbs r t b first cs) = length cs"
  by (induction cs arbitrary: first) auto

lemma variant_row_own_fields:
  "map (map_of (variant_row prefix pbs r t b first color size0))
     [''Option1 Value'', ''Option2 Value'', ''Variant SKU'', ''Variant Price''] =
   [Some (Str color), Some (Str size0), Some (Str (variant_sku prefix color size0)),
    Some (case map_of pbs size0 of Some p \<Rightarrow> Str p
          | None \<Rightarrow> row_get r ''Variant Price'' (Str ''24.90''))]"
  by (simp add: variant_row_def Let_def)

lemma variant_row_first_fields:
  "map (map_of (variant_row prefix pbs r t b True color size0))
     [''Handle'', ''Title'', ''Body (HTML)'', ''Vendor'', ''Tags'', ''Status'',
      ''SEO Title'', ''SEO Description''] =
   [Some (Str (pod_slug t)), Some (Str t), Some b,
    Some (row_get r ''Vendor'' (Str ''Aceru Studio'')), Some (row_get r ''Tags'' (Str '''')),
    Some (row_get r ''Status'' (Str ''active'')), Some (Str (take 70 t)),
    Some (Str (take 140 (''High-quality '' @ t)))]"
  by (simp add: variant_row_def Let_def)

lemma variant_row_later_fields:
  "map (map_of (variant_row prefix pbs r t b False color size0))
     [''Handle'', ''Title'', ''Body (HTML)'', ''Vendor'', ''Tags'', ''Status'',
      ''SEO Title'', ''SEO Description''] =
   [Some (Str ''''), Some (Str ''''), Some (Str ''''), Some (Str ''''), Some (Str ''''),
    Some (Str ''active''), Some (Str ''''), Some (Str '''')]"
  by (simp add: variant_row_def Let_def)

lemma variant_loop_own_fields:
  "map (\<lambda>w. map (map_of w) [''Option1 Value'', ''Option2 Value'', ''Variant SKU'', ''Variant Price''])
     (variant_loop prefix pbs r t b first cs) =
   map (\<lambda>(color, size0).
          [Some (Str color), Some (Str size0), Some (Str (variant_sku prefix color size0)),
           Some (case map_of pbs size0 of Some p \<Rightarrow> Str p
                 | None \<Rightarrow> row_get r ''Variant Price'' (Str ''24.90''))]) cs"
proof (induction cs arbitrary: first)
  case Nil
  show ?case by simp
next
  case (Cons a cs)
  obtain color size0 where a: "a = (color, size0)" by (cases a)
  show ?case
    using Cons.IH [of False] variant_row_own_fields [of prefix pbs r t b first color size0]
    by (simp add: a)
qed

lemma variant_loop_later_fields:
  "w \<in> set (variant_loop prefix pbs r t b False cs) \<Longrightarrow>
   map (map_of w) [''Handle'', ''Title'', ''Body (HTML)'', ''Vendor'', ''Tags'', ''Status'',
      ''SEO Title'', ''SEO Description''] =
   [Some (Str ''''), Some (Str ''''), Some (Str ''''), Some (Str ''''), Some (Str ''''),
    Some (Str ''active''), Some (Str ''''), Some (Str '''')]"
proof (induction cs)
  case Nil
  then show ?case by simp
next
  case (Cons a cs)
  obtain color size0 where a: "a = (color, size0)" by (cases a)
  from Cons.prems consider "w = variant_row prefix pbs r t b False color size0"
    | "w \<in> set (variant_loop prefix pbs r t b False cs)"
    unfolding a variant_loop.simps by auto
  then show ?case
  proof cases
    case 1
    show ?thesis unfolding 1 by (rule variant_row_later_fields)
  next
    case 2
    then show ?thesis by (rule Cons.IH)
  qed
qed


lemma expand_with_Inr:
  "expand_with colors sizes pbs prefix r = Inr vs \<Longrightarrow>
   \<exists>t b. row_item r ''Title'' = Inr t \<and> row_item r ''Body (HTML)'' = Inr b \<and>
         vs = variant_loop prefix pbs r (str_cell t) b True (List.product colors sizes)"
  by (auto simp: expand_with_def split: sum.splits)

lemma product_COLORS_SIZES:
  "List.product COLORS SIZES =
     (''black'', ''S'') # map (Pair ''black'') [''M'', ''L'', ''XL'', ''2XL'']
       @ List.product [''white'', ''navy''] SIZES"
  by (simp add: COLORS_def SIZES_def)




text \<open>
  C5, as stated: every variant row after the first carries the empty string in all the
  shared fields, Status among them. The Status of a later row is not empty: it is the
  literal \<open>active\<close>, whatever the base row's status.
\<close>

theorem later_variant_status_is_active:
  "map (\<lambda>w. map_of w ''Status'')
     (take 2 (case expand_base [(''Title'', Str ''Desk Mat''), (''Body (HTML)'', Str ''<p>Mat</p>''),
                                (''Status'', Str ''draft'')] of
                Inl e \<Rightarrow> [] | Inr vs \<Rightarrow> vs))
   = [Some (Str ''draft''), Some (Str ''active'')]"
  by (simp add: expand_base_def expand_with_def row_item_def row_get_def COLORS_def SIZES_def
      variant_row_def Let_def)

text \<open>
  C5, amended. For every base row (with a Title and a Body), the expander emits 15 rows.
  The first carries the shared fields: the handle, the title, the body, the vendor, the
  tags, the status and the two SEO fields of the base row. Every later row carries the
  empty string in Handle, Title, Body, Vendor, Tags, SEO Title and SEO Description, and
  the literal \<open>active\<close> in Status. Every row, the first included, carries its own option
  values, SKU and price.
\<close>

theorem variant_rows_shared_fields:
  "expand_base r = Inr vs \<Longrightarrow>
   \<exists>t b v rest.
     row_item r ''Title'' = Inr t \<and> row_item r ''Body (HTML)'' = Inr b \<and>
     vs = v # rest \<and> length rest = 14 \<and>
     map (map_of v) [''Handle'', ''Title'', ''Body (HTML)'', ''Vendor'', ''Tags'', ''Status'',
                     ''SEO Title'', ''SEO Description''] =
       [Some (Str (pod_slug (str_cell t))), Some (Str (str_cell t)), Some b,
        Some (row_get r ''Vendor'' (Str ''Aceru Studio'')), Some (row_get r ''Tags'' (Str '''')),
        Some (row_get r ''Status'' (Str ''active'')), Some (Str (take 70 (str_cell t))),
        Some (Str (take 140 (''High-quality '' @ str_cell t)))] \<and>
     (\<forall>w\<in>set rest.
        map (map_of w) [''Handle'', ''Title'', ''Body (HTML)'', ''Vendor'', ''Tags'', ''Status'',
                        ''SEO Title'', ''SEO Description''] =
          [Some (Str ''''), Some (Str ''''), Some (Str ''''), Some (Str ''''), Some (Str ''''),
           Some (Str ''active''), Some (Str ''''), Some (Str '''')]) \<and>
     map (\<lambda>w. map (map_of w) [''Option1 Value'', ''Option2 Value'', ''Variant SKU'', ''Variant Price''])
         vs =
       map (\<lambda>(color, size0).
              [Some (Str color), Some (Str size0), Some (Str (variant_sku SKU_PREFIX color size0)),
               Some (case map_of PRICE_BY_SIZE size0 of Some p \<Rightarrow> Str p
                     | None \<Rightarrow> row_get r ''Variant Price'' (Str ''24.90''))])
           (List.product COLORS SIZES)"
proof -
  assume "expand_base r = Inr vs"
  then obtain t b where t: "row_item r ''Title'' = Inr t" and b: "row_item r ''Body (HTML)'' = Inr b"
    and vs: "vs = variant_loop SKU_PREFIX PRICE_BY_SIZE r (str_cell t) b True (List.product COLORS SIZES)"
    unfolding expand_base_def by (blast dest: expand_with_Inr)
  let ?v = "variant_row SKU_PREFIX PRICE_BY_SIZE r (str_cell t) b True ''black'' ''S''"
  let ?rest = "variant_loop SKU_PREFIX PRICE_BY_SIZE r (str_cell t) b False
      (map (Pair ''black'') [''M'', ''L'', ''XL'', ''2XL''] @ List.product [''white'', ''navy''] SIZES)"
  have decomp: "vs = ?v # ?rest"
    unfolding vs product_COLORS_SIZES by simp
  have len: "length ?rest = 14"
    by (simp add: variant_loop_length SIZES_def)
  have own: "map (\<lambda>w. map (map_of w) [''Option1 Value'', ''Option2 Value'', ''Variant SKU'', ''Variant Price''])
         vs =
       map (\<lambda>(color, size0).
              [Some (Str color), Some (Str size0), Some (Str (variant_sku SKU_PREFIX color size0)),
               Some (case map_of PRICE_BY_SIZE size0 of Some p \<Rightarrow> Str p
                     | None \<Rightarrow> row_get r ''Variant Price'' (Str ''24.90''))])
           (List.product COLORS SIZES)"
    unfolding vs by (rule variant_loop_own_fields)
  have later: "\<forall>w\<in>set ?rest.
        map (map_of w) [''Handle'', ''Title'', ''Body (HTML)'', ''Vendor'', ''Tags'', ''Status'',
                        ''SEO Title'', ''SEO Description''] =
          [Some (Str ''''), Some (Str ''''), Some (Str ''''), Some (Str ''''), Some (Str ''''),
           Some (Str ''active''), Some (Str ''''), Some (Str '''')]"
    by (rule ballI) (rule variant_loop_later_fields)
  have first: "map (map_of ?v) [''Handle'', ''Title'', ''Body (HTML)'', ''Vendor'', ''Tags'', ''Status'',
                     ''SEO Title'', ''SEO Description''] =
       [Some (Str (pod_slug (str_cell t))), Some (Str (str_cell t)), Some b,
        Some (row_get r ''Vendor'' (Str ''Aceru Studio'')), Some (row_get r ''Tags'' (Str '''')),
        Some (row_get r ''Status'' (Str ''active'')), Some (Str (take 70 (str_cell t))),
        Some (Str (take 140 (''High-quality '' @ str_cell t)))]"
    by (rule variant_row_first_fields)
  show ?thesis
    by (rule exI [of _ t], rule exI [of _ b], rule exI [of _ ?v], rule exI [of _ ?rest])
       (intro conjI t b decomp len first later own)
qed

theorem variant_rows_shared_fields_witness:
  "\<exists>v rest.
     expand_base [(''Title'', Str ''Desk Mat''), (''Body (HTML)'', Str ''<p>Mat</p>''),
                  (''Status'', Str ''draft'')] = Inr (v # rest) \<and>
     length rest = 14 \<and>
     map_of v ''Title'' = Some (Str ''Desk Mat'') \<and> map_of v ''Status'' = Some (Str ''draft'') \<and>
     list_all (\<lambda>w. map_of w ''Title'' = Some (Str '''') \<and> map_of w ''Status'' = Some (Str ''active''))
       rest"
proof -
  let ?r = "[(''Title'', Str ''Desk Mat''), (''Body (HTML)'', Str ''<p>Mat</p>''),
             (''Status'', Str ''draft'')]"
  let ?vs = "variant_loop SKU_PREFIX PRICE_BY_SIZE ?r ''Desk Mat'' (Str ''<p>Mat</p>'') True
      (List.product COLORS SIZES)"
  have e: "expand_base ?r = Inr ?vs"
    by (simp add: expand_base_def expand_with_def row_item_def)
  from variant_rows_shared_fields [OF e]
  obtain t b v rest where c: "row_item ?r ''Title'' = Inr t \<and> row_item ?r ''Body (HTML)'' = Inr b \<and>
     ?vs = v # rest \<and> length rest = 14 \<and>
     map (map_of v) [''Handle'', ''Title'', ''Body (HTML)'', ''Vendor'', ''Tags'', ''Status'',
                     ''SEO Title'', ''SEO Description''] =
       [Some (Str (pod_slug (str_cell t))), Some (Str (str_cell t)), Some b,
        Some (row_get ?r ''Vendor'' (Str ''Aceru Studio'')), Some (row_get ?r ''Tags'' (Str '''')),
        Some (row_get ?r ''Status'' (Str ''active'')), Some (Str (take 70 (str_cell t))),
        Some (Str (take 140 (''High-quality '' @ str_cell t)))] \<and>
     (\<forall>w\<in>set rest.
        map (map_of w) [''Handle'', ''Title'', ''Body (HTML)'', ''Vendor'', ''Tags'', ''Status'',
                        ''SEO Title'', ''SEO Description''] =
          [Some (Str ''''), Some (Str ''''), Some (Str ''''), Some (Str ''''), Some (Str ''''),
           Some (Str ''active''), Some (Str ''''), Some (Str '''')]) \<and>
     map (\<lambda>w. map (map_of w) [''Option1 Value'', ''Option2 Value'', ''Variant SKU'', ''Variant Price''])
         ?vs =
       map (\<lambda>(color, size0).
              [Some (Str color), Some (Str size0), Some (Str (variant_sku SKU_PREFIX color size0)),
               Some (case map_of PRICE_BY_SIZE size0 of Some p \<Rightarrow> Str p
                     | None \<Rightarrow> row_get ?r ''Variant Price'' (Str ''24.90''))])
           (List.product COLORS SIZES)"
    by (elim exE)
  note t = c [THEN conjunct1]
  note vs = c [THEN conjunct2, THEN conjunct2, THEN conjunct1]
  note len = c [THEN conjunct2, THEN conjunct2, THEN conjunct2, THEN conjunct1]
  note first = c [THEN conjunct2, THEN conjunct2, THEN conjunct2, THEN conjunct2, THEN conjunct1]
  note later = c [THEN conjunct2, THEN conjunct2, THEN conjunct2, THEN conjunct2, THEN conjunct2,
    THEN conjunct1]
  from t have "t = Str ''Desk Mat''" by (simp add: row_item_def)
  with first have f: "map_of v ''Title'' = Some (Str ''Desk Mat'') \<and> map_of v ''Status'' = Some (Str ''draft'')"
    by (simp add: row_get_def)
  from later have l: "list_all (\<lambda>w. map_of w ''Title'' = Some (Str '''') \<and>
      map_of w ''Status'' = Some (Str ''active'')) rest"
    by (simp add: list_all_iff)
  have "expand_base ?r = Inr (v # rest)" by (simp only: e vs)
  then show ?thesis using len f [THEN conjunct1] f [THEN conjunct2] l by (intro exI conjI)
qed

text \<open>
  C7. For every base row (with a Title and a Body) and all option lists, the expander emits
  one row per combination, \<open>|colors| * |sizes|\<close> rows, colour by colour and, within a
  colour, size by size; the SKU of a row is the prefix, a hyphen, the first letter of the
  colour in upper case, and the size. For the colours black and white, the sizes S and M
  and the prefix TEE, the rows are four, with the SKUs TEE-BS, TEE-BM, TEE-WS, TEE-WM in
  that order, and only the first has a Title that is not empty.
\<close>

theorem variant_expansion_order_and_skus:
  "(expand_with colors sizes pbs prefix r = Inr vs \<longrightarrow>
      length vs = length colors * length sizes \<and>
      map (\<lambda>w. (map_of w ''Option1 Value'', map_of w ''Option2 Value'', map_of w ''Variant SKU'')) vs =
        concat (map (\<lambda>color. map (\<lambda>size0.
            (Some (Str color), Some (Str size0),
             Some (Str (prefix @ ''-'' @ upper (take 1 color) @ size0)))) sizes) colors)) \<and>
   (case expand_with [''black'', ''white''] [''S'', ''M''] PRICE_BY_SIZE ''TEE''
           [(''Title'', Str ''Minimalist Desk Mat''), (''Body (HTML)'', Str ''<p>Desk mat</p>'')] of
      Inl e \<Rightarrow> []
    | Inr ws \<Rightarrow> map (\<lambda>w. (map_of w ''Variant SKU'', map_of w ''Title'')) ws) =
     [(Some (Str ''TEE-BS''), Some (Str ''Minimalist Desk Mat'')),
      (Some (Str ''TEE-BM''), Some (Str '''')),
      (Some (Str ''TEE-WS''), Some (Str '''')),
      (Some (Str ''TEE-WM''), Some (Str ''''))]"
proof (intro conjI impI)
  assume e: "expand_with colors sizes pbs prefix r = Inr vs"
  then obtain t b where
    vs: "vs = variant_loop prefix pbs r (str_cell t) b True (List.product colors sizes)"
    by (blast dest: expand_with_Inr)
  show "length vs = length colors * length sizes"
    unfolding vs by (simp add: variant_loop_length)
  have "map (\<lambda>w. map (map_of w) [''Option1 Value'', ''Option2 Value'', ''Variant SKU'', ''Variant Price''])
     vs =
   map (\<lambda>(color, size0).
          [Some (Str color), Some (Str size0), Some (Str (variant_sku prefix color size0)),
           Some (case map_of pbs size0 of Some p \<Rightarrow> Str p
                 | None \<Rightarrow> row_get r ''Variant Price'' (Str ''24.90''))])
       (List.product colors sizes)"
    unfolding vs by (rule variant_loop_own_fields)
  then have "map ((\<lambda>xs. (xs ! 0, xs ! 1, xs ! 2)) \<circ>
       (\<lambda>w. map (map_of w) [''Option1 Value'', ''Option2 Value'', ''Variant SKU'', ''Variant Price''])) vs =
     map ((\<lambda>xs. (xs ! 0, xs ! 1, xs ! 2)) \<circ> (\<lambda>(color, size0).
          [Some (Str color), Some (Str size0), Some (Str (variant_sku prefix color size0)),
           Some (case map_of pbs size0 of Some p \<Rightarrow> Str p
                 | None \<Rightarrow> row_get r ''Variant Price'' (Str ''24.90''))]))
       (List.product colors sizes)"
    by (simp only: map_map [symmetric])
  then have "map (\<lambda>w. (map_of w ''Option1 Value'', map_of w ''Option2 Value'', map_of w ''Variant SKU'')) vs =
     map (\<lambda>(color, size0). (Some (Str color), Some (Str size0),
             Some (Str (prefix @ ''-'' @ upper (take 1 color) @ size0))))
       (List.product colors sizes)"
    by (simp add: comp_def case_prod_unfold variant_sku_def)
  also have "\<dots> = concat (map (\<lambda>color. map (\<lambda>size0.
            (Some (Str color), Some (Str size0),
             Some (Str (prefix @ ''-'' @ upper (take 1 color) @ size0)))) sizes) colors)"
    by (simp add: product_concat_map map_concat comp_def)
  finally show "map (\<lambda>w. (map_of w ''Option1 Value'', map_of w ''Option2 Value'', map_of w ''Variant SKU'')) vs =
        concat (map (\<lambda>color. map (\<lambda>size0.
            (Some (Str color), Some (Str size0),
             Some (Str (prefix @ ''-'' @ upper (take 1 color) @ size0)))) sizes) colors)" .
next
  have u: "upper ''b'' = ''B''" "upper ''w'' = ''W''" by code_simp+
  show "(case expand_with [''black'', ''white''] [''S'', ''M''] PRICE_BY_SIZE ''TEE''
           [(''Title'', Str ''Minimalist Desk Mat''), (''Body (HTML)'', Str ''<p>Desk mat</p>'')] of
      Inl e \<Rightarrow> []
    | Inr ws \<Rightarrow> map (\<lambda>w. (map_of w ''Variant SKU'', map_of w ''Title'')) ws) =
     [(Some (Str ''TEE-BS''), Some (Str ''Minimalist Desk Mat'')),
      (Some (Str ''TEE-BM''), Some (Str '''')),
      (Some (Str ''TEE-WS''), Some (Str '''')),
      (Some (Str ''TEE-WM''), Some (Str ''''))]"
    by (simp add: expand_with_def row_item_def variant_row_def Let_def variant_sku_def u)
qed

theorem variant_expansion_order_and_skus_witness:
  "\<exists>vs. expand_with [''black'', ''white''] [''S'', ''M''] PRICE_BY_SIZE ''TEE''
           [(''Title'', Str ''Minimalist Desk Mat''), (''Body (HTML)'', Str ''<p>Desk mat</p>'')]
         = Inr vs \<and>
        length vs = 4 \<and>
        map (\<lambda>w. (map_of w ''Option1 Value'', map_of w ''Option2 Value'', map_of w ''Variant SKU'')) vs =
          [(Some (Str ''black''), Some (Str ''S''), Some (Str ''TEE-BS'')),
           (Some (Str ''black''), Some (Str ''M''), Some (Str ''TEE-BM'')),
           (Some (Str ''white''), Some (Str ''S''), Some (Str ''TEE-WS'')),
           (Some (Str ''white''), Some (Str ''M''), Some (Str ''TEE-WM''))]"
proof -
  let ?r = "[(''Title'', Str ''Minimalist Desk Mat''), (''Body (HTML)'', Str ''<p>Desk mat</p>'')]"
  obtain vs where e: "expand_with [''black'', ''white''] [''S'', ''M''] PRICE_BY_SIZE ''TEE'' ?r = Inr vs"
    by (simp add: expand_with_def row_item_def)
  have u: "upper ''b'' = ''B''" "upper ''w'' = ''W''" by code_simp+
  note T = variant_expansion_order_and_skus
    [of "[''black'', ''white'']" "[''S'', ''M'']" PRICE_BY_SIZE "''TEE''" ?r vs, THEN conjunct1,
     rule_format, OF e]
  have tk: "take 1 ''black'' = ''b''" "take 1 ''white'' = ''w''" by simp_all
  have len: "length vs = 4"
    using T [THEN conjunct1] by simp
  have skus: "map (\<lambda>w. (map_of w ''Option1 Value'', map_of w ''Option2 Value'', map_of w ''Variant SKU'')) vs =
          [(Some (Str ''black''), Some (Str ''S''), Some (Str ''TEE-BS'')),
           (Some (Str ''black''), Some (Str ''M''), Some (Str ''TEE-BM'')),
           (Some (Str ''white''), Some (Str ''S''), Some (Str ''TEE-WS'')),
           (Some (Str ''white''), Some (Str ''M''), Some (Str ''TEE-WM''))]"
    unfolding T [THEN conjunct2] by (simp add: tk u)
  show ?thesis
    by (rule exI [of _ vs]) (intro conjI e len skus)
qed



section \<open>Merge stage: product rows, then image rows\<close>

lemma merge_out_cols_eq:
  "merge_out_cols prod0 =
     df_columns prod0 @ filter (\<lambda>c. c \<notin> set (df_columns prod0))
       [''Image Src'', ''Image Alt Text'', ''Image Position'']"
  by (simp add: merge_out_cols_def add_col_def)

lemma merge_out_cols_distinct:
  "distinct (df_columns prod0) \<Longrightarrow> distinct (merge_out_cols prod0)"
  by (simp add: merge_out_cols_eq)

lemma merge_out_cols_image:
  "''Image Src'' \<in> set (merge_out_cols prod0) \<and>
   ''Image Alt Text'' \<in> set (merge_out_cols prod0) \<and>
   ''Image Position'' \<in> set (merge_out_cols prod0)"
  by (simp add: merge_out_cols_eq)

lemma lookup_own_keys:
  assumes "distinct (map fst r)"
  shows "map (\<lambda>c. (c, case map_of r c of Some v \<Rightarrow> v | None \<Rightarrow> d)) (map fst r) = r"
proof -
  have "(fst p, case map_of r (fst p) of Some v \<Rightarrow> v | None \<Rightarrow> d) = p" if "p \<in> set r" for p
  proof -
    obtain k v where p: "p = (k, v)" by (cases p)
    have "map_of r k = Some v" using assms that p by (intro map_of_is_SomeI) simp_all
    then show ?thesis by (simp add: p)
  qed
  then have "map (\<lambda>p. (fst p, case map_of r (fst p) of Some v \<Rightarrow> v | None \<Rightarrow> d)) r = map (\<lambda>p. p) r"
    by (intro map_cong) simp_all
  then show ?thesis by (simp add: comp_def)
qed

lemma lookup_foreign_keys:
  assumes "\<forall>c\<in>set cs. c \<notin> fst ` set r"
  shows "map (\<lambda>c. (c, case map_of r c of Some v \<Rightarrow> v | None \<Rightarrow> d)) cs = map (\<lambda>c. (c, d)) cs"
proof (rule map_cong [OF refl])
  fix c assume "c \<in> set cs"
  then have "c \<notin> fst ` set r" using assms by blast
  then have "map_of r c = None" by (simp add: map_of_eq_None_iff)
  then show "(c, case map_of r c of Some v \<Rightarrow> v | None \<Rightarrow> d) = (c, d)" by simp
qed

lemma product_row_wf:
  assumes "distinct (df_columns prod0)" and "map fst r = df_columns prod0"
  shows "product_row (merge_out_cols prod0) r =
         r @ map (\<lambda>c. (c, Str ''''))
               (filter (\<lambda>c. c \<notin> set (df_columns prod0))
                  [''Image Src'', ''Image Alt Text'', ''Image Position''])"
proof -
  let ?extra = "filter (\<lambda>c. c \<notin> set (df_columns prod0))
                  [''Image Src'', ''Image Alt Text'', ''Image Position'']"
  have d: "distinct (map fst r)" using assms by simp
  have own: "map (\<lambda>c. (c, case map_of r c of Some v \<Rightarrow> v | None \<Rightarrow> Str '''')) (map fst r) = r"
    using d by (rule lookup_own_keys)
  have "fst ` set r = set (df_columns prod0)"
    using assms(2) by (metis set_map)
  then have "\<forall>c\<in>set ?extra. c \<notin> fst ` set r"
    by simp
  then have ext: "map (\<lambda>c. (c, case map_of r c of Some v \<Rightarrow> v | None \<Rightarrow> Str '''')) ?extra =
             map (\<lambda>c. (c, Str '''')) ?extra"
    by (rule lookup_foreign_keys)
  have "product_row (merge_out_cols prod0) r =
        map (\<lambda>c. (c, case map_of r c of Some v \<Rightarrow> v | None \<Rightarrow> Str '''')) (map fst r)
        @ map (\<lambda>c. (c, case map_of r c of Some v \<Rightarrow> v | None \<Rightarrow> Str '''')) ?extra"
    unfolding product_row_def merge_out_cols_eq assms(2) [symmetric] by simp
  then show ?thesis by (simp only: own ext)
qed

lemma align_own_keys:
  "distinct cs \<Longrightarrow> map fst d = cs \<Longrightarrow> align cs d = d"
proof -
  assume a: "distinct cs" and b: "map fst d = cs"
  have "map (\<lambda>c. (c, case map_of d c of Some v \<Rightarrow> v | None \<Rightarrow> NaN)) (map fst d) = d"
    using a b by (intro lookup_own_keys) simp
  then show ?thesis by (simp add: align_def row_get_def b)
qed

lemma update_template:
  "distinct cs \<Longrightarrow> k \<in> set cs \<Longrightarrow>
   AList.update k v (map (\<lambda>c. (c, f c)) cs) = map (\<lambda>c. (c, if c = k then v else f c)) cs"
proof (induction cs)
  case Nil
  then show ?case by simp
next
  case (Cons a cs)
  show ?case
  proof (cases "a = k")
    case True
    then have "k \<notin> set cs" using Cons.prems by simp
    then have "map (\<lambda>c. (c, if c = k then v else f c)) cs = map (\<lambda>c. (c, f c)) cs"
      by (intro map_cong) auto
    then show ?thesis using True by simp
  next
    case False
    then have "k \<in> set cs" using Cons.prems by simp
    then show ?thesis using False Cons by simp
  qed
qed

lemma image_row_Inr:
  assumes d: "distinct cs" and h: "''Handle'' \<in> set cs" and s: "''Image Src'' \<in> set cs"
    and a: "''Image Alt Text'' \<in> set cs" and p: "''Image Position'' \<in> set cs"
    and e: "image_row cs r = Inr row"
  shows "row_item r ''Handle'' = Inr (row_get r ''Handle'' NaN) \<and>
         row = map (\<lambda>c. (c,
                 if c = ''Image Position'' then row_get r ''Image Position'' (Str '''')
                 else if c = ''Image Alt Text'' then row_get r ''Image Alt Text'' (Str '''')
                 else if c = ''Image Src'' then row_get r ''Image Src'' (Str '''')
                 else if c = ''Handle'' then row_get r ''Handle'' NaN
                 else Str '''')) cs"
proof -
  from e obtain hv where hv: "row_item r ''Handle'' = Inr hv"
    by (auto simp: image_row_def Let_def split: sum.splits)
  then have g: "row_get r ''Handle'' NaN = hv"
    by (auto simp: row_item_def row_get_def split: option.splits)
  from e hv have "row =
      AList.update ''Image Position'' (row_get r ''Image Position'' (Str ''''))
        (AList.update ''Image Alt Text'' (row_get r ''Image Alt Text'' (Str ''''))
          (AList.update ''Image Src'' (row_get r ''Image Src'' (Str ''''))
            (AList.update ''Handle'' hv (map (\<lambda>c. (c, Str '''')) cs))))"
    by (simp add: image_row_def Let_def)
  then have "row = map (\<lambda>c. (c,
                 if c = ''Image Position'' then row_get r ''Image Position'' (Str '''')
                 else if c = ''Image Alt Text'' then row_get r ''Image Alt Text'' (Str '''')
                 else if c = ''Image Src'' then row_get r ''Image Src'' (Str '''')
                 else if c = ''Handle'' then hv
                 else Str '''')) cs"
    by (simp only: update_template [OF d h] update_template [OF d s] update_template [OF d a]
        update_template [OF d p])
  then show ?thesis using hv g by simp
qed

lemma image_rows_Inr:
  assumes d: "distinct cs" and h: "''Handle'' \<in> set cs" and s: "''Image Src'' \<in> set cs"
    and a: "''Image Alt Text'' \<in> set cs" and p: "''Image Position'' \<in> set cs"
  shows "image_rows cs rs = Inr ds \<Longrightarrow>
         ds = map (\<lambda>r. map (\<lambda>c. (c,
                 if c = ''Image Position'' then row_get r ''Image Position'' (Str '''')
                 else if c = ''Image Alt Text'' then row_get r ''Image Alt Text'' (Str '''')
                 else if c = ''Image Src'' then row_get r ''Image Src'' (Str '''')
                 else if c = ''Handle'' then row_get r ''Handle'' NaN
                 else Str '''')) cs) rs"
proof (induction rs arbitrary: ds)
  case Nil
  then show ?case by simp
next
  case (Cons r rs)
  from Cons.prems obtain row rest where r: "image_row cs r = Inr row"
    and rest: "image_rows cs rs = Inr rest" and ds: "ds = row # rest"
    by (auto split: sum.splits)
  note ir = image_row_Inr [OF d h s a p r, THEN conjunct2]
  show ?case
    unfolding ds list.map Cons.IH [OF rest, symmetric] ir [symmetric] ..
qed

lemma ensure_cols_Inr: "ensure_cols df cols = Inr u \<Longrightarrow> set cols \<subseteq> set (df_columns df)"
  by (auto simp: ensure_cols_def Let_def filter_empty_conv split: if_splits)

lemma resolve_images_length: "length (df_rows (resolve_images fm imgs)) = length (df_rows imgs)"
  by (simp add: resolve_images_def)


lemma align_template:
  "distinct cs \<Longrightarrow> align cs (map (\<lambda>c. (c, f c)) cs) = map (\<lambda>c. (c, f c)) cs"
  by (rule align_own_keys) (simp_all add: comp_def)

lemma merge_main_Inr:
  assumes "merge_main prod0 imgs urls = Inr out"
  shows "\<exists>u1 u2 filemap irs.
     ensure_cols prod0 REQUIRED_PRODUCT_COLS = Inr u1 \<and>
     ensure_cols imgs IMAGE_COLS = Inr u2 \<and>
     build_filemap urls = Inr filemap \<and>
     image_rows (merge_out_cols prod0) (df_rows (resolve_images filemap imgs)) = Inr irs \<and>
     out = \<lparr>df_columns = merge_out_cols prod0,
            df_rows = map (align (merge_out_cols prod0))
                        (map (product_row (merge_out_cols prod0)) (df_rows prod0) @ irs)\<rparr>"
  using assms by (auto simp: merge_main_def Let_def split: sum.splits)

lemma row_get_update:
  "row_get (AList.update k v r) k' d = (if k' = k then v else row_get r k' d)"
  by (simp add: row_get_def update_conv')

lemma row_item_update:
  "k' \<noteq> k \<Longrightarrow> row_item (AList.update k v r) k' = row_item r k'"
  by (simp add: row_item_def update_conv')

lemma image_rows_handles:
  "image_rows cs rs = Inr ds \<Longrightarrow> r \<in> set rs \<Longrightarrow>
   row_item r ''Handle'' = Inr (row_get r ''Handle'' NaN)"
proof (induction rs arbitrary: ds)
  case Nil
  then show ?case by simp
next
  case (Cons x xs)
  from Cons.prems(1) obtain row rest where x: "image_row cs x = Inr row"
    and rest: "image_rows cs xs = Inr rest"
    by (auto split: sum.splits)
  from x obtain hv where hv: "row_item x ''Handle'' = Inr hv"
    by (auto simp: image_row_def Let_def split: sum.splits)
  then have "row_get x ''Handle'' NaN = hv"
    by (auto simp: row_item_def row_get_def split: option.splits)
  with hv have hx: "row_item x ''Handle'' = Inr (row_get x ''Handle'' NaN)" by simp
  show ?case
  proof (cases "r = x")
    case True
    then show ?thesis using hx by simp
  next
    case False
    then have "r \<in> set xs" using Cons.prems(2) by simp
    then show ?thesis using Cons.IH [OF rest] by simp
  qed
qed

lemma build_filemap_None: "build_filemap None = Inr fm \<Longrightarrow> fm = []"
  by (simp add: build_filemap_def)

text \<open>
  C8. For a product table as \<open>read_csv\<close> yields it (distinct columns, every row on these
  columns) and an image table, when the merge produces a table: its columns are the product
  columns followed by those of Image Src, Image Alt Text and Image Position that the product
  table lacks; its rows are \<open>P + I\<close>; the first \<open>P\<close> are the product rows in their input
  order, each one unchanged and extended with the empty string in the added image columns;
  the last \<open>I\<close> are made from the rows of the image table, one for one and in their input
  order: the row made from the image row \<open>r\<close> has the Handle of \<open>r\<close> (which \<open>r\<close> does
  have), the Image Alt Text and the Image Position of \<open>r\<close>, as Image Src the Image Src of
  \<open>r\<close> (when the URL map is not empty and has an entry for the trimmed text of that value,
  the URL of this entry instead), and the empty string in every other column. Without a URL
  table the URL map is empty.
\<close>

theorem merge_main_rows:
  "wf_dataframe prod0 \<Longrightarrow> merge_main prod0 imgs urls = Inr out \<Longrightarrow>
   \<exists>filemap.
     build_filemap urls = Inr filemap \<and>
     (urls = None \<longrightarrow> filemap = []) \<and>
     df_columns out =
       df_columns prod0 @ filter (\<lambda>c. c \<notin> set (df_columns prod0))
         [''Image Src'', ''Image Alt Text'', ''Image Position''] \<and>
     length (df_rows out) = length (df_rows prod0) + length (df_rows imgs) \<and>
     (\<forall>r\<in>set (df_rows imgs). row_item r ''Handle'' = Inr (row_get r ''Handle'' NaN)) \<and>
     df_rows out =
       map (\<lambda>r. r @ map (\<lambda>c. (c, Str ''''))
                    (filter (\<lambda>c. c \<notin> set (df_columns prod0))
                       [''Image Src'', ''Image Alt Text'', ''Image Position'']))
           (df_rows prod0)
       @ map (\<lambda>r. map (\<lambda>c. (c,
                 if c = ''Image Position'' then row_get r ''Image Position'' (Str '''')
                 else if c = ''Image Alt Text'' then row_get r ''Image Alt Text'' (Str '''')
                 else if c = ''Image Src'' then
                   (if filemap = [] then row_get r ''Image Src'' (Str '''')
                    else (case map_of filemap (strip (str_cell (row_get r ''Image Src'' NaN))) of
                            Some u \<Rightarrow> Str u
                          | None \<Rightarrow> row_get r ''Image Src'' NaN))
                 else if c = ''Handle'' then row_get r ''Handle'' NaN
                 else Str '''')) (df_columns out))
           (df_rows imgs)"
proof -
  assume wf: "wf_dataframe prod0" and m: "merge_main prod0 imgs urls = Inr out"
  let ?cs = "merge_out_cols prod0"
  let ?extra = "filter (\<lambda>c. c \<notin> set (df_columns prod0))
         [''Image Src'', ''Image Alt Text'', ''Image Position'']"
  let ?spec = "\<lambda>r. map (\<lambda>c. (c,
                 if c = ''Image Position'' then row_get r ''Image Position'' (Str '''')
                 else if c = ''Image Alt Text'' then row_get r ''Image Alt Text'' (Str '''')
                 else if c = ''Image Src'' then row_get r ''Image Src'' (Str '''')
                 else if c = ''Handle'' then row_get r ''Handle'' NaN
                 else Str '''')) ?cs"
  from merge_main_Inr [OF m] obtain u1 u2 filemap irs where
    e1: "ensure_cols prod0 REQUIRED_PRODUCT_COLS = Inr u1" and
    fm: "build_filemap urls = Inr filemap" and
    ir: "image_rows ?cs (df_rows (resolve_images filemap imgs)) = Inr irs" and
    out: "out = \<lparr>df_columns = ?cs,
            df_rows = map (align ?cs) (map (product_row ?cs) (df_rows prod0) @ irs)\<rparr>"
    by blast
  let ?img = "\<lambda>r. map (\<lambda>c. (c,
                 if c = ''Image Position'' then row_get r ''Image Position'' (Str '''')
                 else if c = ''Image Alt Text'' then row_get r ''Image Alt Text'' (Str '''')
                 else if c = ''Image Src'' then
                   (if filemap = [] then row_get r ''Image Src'' (Str '''')
                    else (case map_of filemap (strip (str_cell (row_get r ''Image Src'' NaN))) of
                            Some u \<Rightarrow> Str u
                          | None \<Rightarrow> row_get r ''Image Src'' NaN))
                 else if c = ''Handle'' then row_get r ''Handle'' NaN
                 else Str '''')) ?cs"
  let ?res = "\<lambda>r. AList.update ''Image Src''
                 (resolve_src filemap (row_get r ''Image Src'' NaN)) r"
  from wf have dist: "distinct (df_columns prod0)"
    and rows: "\<forall>r\<in>set (df_rows prod0). map fst r = df_columns prod0"
    by (simp_all add: wf_dataframe_def list_all_iff)
  have d: "distinct ?cs" using dist by (rule merge_out_cols_distinct)
  have "''Handle'' \<in> set (df_columns prod0)"
    using ensure_cols_Inr [OF e1] by (simp add: REQUIRED_PRODUCT_COLS_def)
  then have h: "''Handle'' \<in> set ?cs" by (simp add: merge_out_cols_eq)
  note i = merge_out_cols_image [of prod0]
  have irs: "irs = map ?spec (df_rows (resolve_images filemap imgs))"
    using d h i [THEN conjunct1] i [THEN conjunct2, THEN conjunct1]
      i [THEN conjunct2, THEN conjunct2] ir
    by (rule image_rows_Inr)
  have res: "?spec (?res r) = ?img r" if "filemap \<noteq> []" for r
    using that by (simp add: row_get_update resolve_src_def)
  have same: "?spec r = ?img r" if "filemap = []" for r
    using that by simp
  have img: "map ?spec (df_rows (resolve_images filemap imgs)) = map ?img (df_rows imgs)"
  proof (cases "filemap = []")
    case True
    then have "resolve_images filemap imgs = imgs" by (simp add: resolve_images_def)
    then show ?thesis using same [OF True] by simp
  next
    case False
    then have "df_rows (resolve_images filemap imgs) = map ?res (df_rows imgs)"
      by (simp add: resolve_images_def)
    then show ?thesis using res [OF False] by (simp add: comp_def)
  qed
  have handles: "\<forall>r\<in>set (df_rows imgs). row_item r ''Handle'' = Inr (row_get r ''Handle'' NaN)"
  proof
    fix r assume r: "r \<in> set (df_rows imgs)"
    show "row_item r ''Handle'' = Inr (row_get r ''Handle'' NaN)"
    proof (cases "filemap = []")
      case True
      then have "resolve_images filemap imgs = imgs" by (simp add: resolve_images_def)
      then show ?thesis using image_rows_handles [OF ir] r by simp
    next
      case False
      then have "df_rows (resolve_images filemap imgs) = map ?res (df_rows imgs)"
        by (simp add: resolve_images_def)
      then have "?res r \<in> set (df_rows (resolve_images filemap imgs))" using r by simp
      then have "row_item (?res r) ''Handle'' = Inr (row_get (?res r) ''Handle'' NaN)"
        by (rule image_rows_handles [OF ir])
      then show ?thesis by (simp add: row_item_update row_get_update)
    qed
  qed
  have a1: "map (align ?cs) (map (product_row ?cs) (df_rows prod0)) =
            map (\<lambda>r. r @ map (\<lambda>c. (c, Str '''')) ?extra) (df_rows prod0)"
  proof -
    have "align ?cs (product_row ?cs r) = r @ map (\<lambda>c. (c, Str '''')) ?extra"
      if "r \<in> set (df_rows prod0)" for r
    proof -
      have "align ?cs (product_row ?cs r) = product_row ?cs r"
        unfolding product_row_def using d by (rule align_template)
      moreover have "map fst r = df_columns prod0" using rows that by blast
      ultimately show ?thesis using product_row_wf [OF dist] by simp
    qed
    then show ?thesis by (simp add: comp_def cong: map_cong)
  qed
  have a2: "map (align ?cs) irs = map ?img (df_rows imgs)"
  proof -
    have "align ?cs (?spec r) = ?spec r" for r
      using d by (rule align_template)
    then have "map (align ?cs) irs = map ?spec (df_rows (resolve_images filemap imgs))"
      unfolding irs by (simp add: comp_def)
    then show ?thesis by (simp only: img)
  qed
  have rows_out: "df_rows out =
       map (\<lambda>r. r @ map (\<lambda>c. (c, Str '''')) ?extra) (df_rows prod0)
       @ map ?img (df_rows imgs)"
    unfolding out by (simp only: dataframe.simps map_append a1 a2)
  have cols_out: "df_columns out = ?cs" by (simp add: out)
  have len: "length (df_rows out) = length (df_rows prod0) + length (df_rows imgs)"
    unfolding rows_out by simp
  have none: "urls = None \<longrightarrow> filemap = []"
    using fm build_filemap_None by blast
  show ?thesis
    apply (rule exI [of _ filemap])
    apply (intro conjI)
         apply (rule fm)
        apply (rule none)
       apply (simp only: cols_out merge_out_cols_eq)
      apply (rule len)
     apply (rule handles)
    apply (simp only: rows_out cols_out)
    done
qed

theorem merge_main_rows_witness:
  "\<exists>out.
     merge_main
       \<lparr>df_columns = [''Handle'', ''Title'', ''Body (HTML)'', ''Vendor'', ''Status''],
        df_rows = [[(''Handle'', Str ''desk-mat''), (''Title'', Str ''Desk Mat''),
                    (''Body (HTML)'', Str ''<p>Mat</p>''), (''Vendor'', Str ''Aceru Studio''),
                    (''Status'', Str ''active'')]]\<rparr>
       \<lparr>df_columns = [''Handle'', ''Image Src'', ''Image Alt Text'', ''Image Position''],
        df_rows = [[(''Handle'', Str ''desk-mat''), (''Image Src'', Str ''desk-mat-1.png''),
                    (''Image Alt Text'', Str ''Desk Mat front''), (''Image Position'', Num 1)],
                   [(''Handle'', Str ''desk-mat''), (''Image Src'', Str ''desk-mat-2.png''),
                    (''Image Alt Text'', Str ''Desk Mat back''), (''Image Position'', Num 2)]]\<rparr>
       (Some \<lparr>df_columns = [''new_filename'', ''url''],
              df_rows = [[(''new_filename'', Str ''desk-mat-1.png''),
                          (''url'', Str ''https://cdn.example/desk-mat-1.png'')]]\<rparr>)
       = Inr out \<and>
     df_columns out = [''Handle'', ''Title'', ''Body (HTML)'', ''Vendor'', ''Status'',
                       ''Image Src'', ''Image Alt Text'', ''Image Position''] \<and>
     df_rows out =
       [[(''Handle'', Str ''desk-mat''), (''Title'', Str ''Desk Mat''),
         (''Body (HTML)'', Str ''<p>Mat</p>''), (''Vendor'', Str ''Aceru Studio''),
         (''Status'', Str ''active''), (''Image Src'', Str ''''),
         (''Image Alt Text'', Str ''''), (''Image Position'', Str '''')],
        [(''Handle'', Str ''desk-mat''), (''Title'', Str ''''),
         (''Body (HTML)'', Str ''''), (''Vendor'', Str ''''),
         (''Status'', Str ''''), (''Image Src'', Str ''https://cdn.example/desk-mat-1.png''),
         (''Image Alt Text'', Str ''Desk Mat front''), (''Image Position'', Num 1)],
        [(''Handle'', Str ''desk-mat''), (''Title'', Str ''''),
         (''Body (HTML)'', Str ''''), (''Vendor'', Str ''''),
         (''Status'', Str ''''), (''Image Src'', Str ''desk-mat-2.png''),
         (''Image Alt Text'', Str ''Desk Mat back''), (''Image Position'', Num 2)]]"
proof -
  let ?P = "\<lparr>df_columns = [''Handle'', ''Title'', ''Body (HTML)'', ''Vendor'', ''Status''],
        df_rows = [[(''Handle'', Str ''desk-mat''), (''Title'', Str ''Desk Mat''),
                    (''Body (HTML)'', Str ''<p>Mat</p>''), (''Vendor'', Str ''Aceru Studio''),
                    (''Status'', Str ''active'')]]\<rparr>"
  let ?I = "\<lparr>df_columns = [''Handle'', ''Image Src'', ''Image Alt Text'', ''Image Position''],
        df_rows = [[(''Handle'', Str ''desk-mat''), (''Image Src'', Str ''desk-mat-1.png''),
                    (''Image Alt Text'', Str ''Desk Mat front''), (''Image Position'', Num 1)],
                   [(''Handle'', Str ''desk-mat''), (''Image Src'', Str ''desk-mat-2.png''),
                    (''Image Alt Text'', Str ''Desk Mat back''), (''Image Position'', Num 2)]]\<rparr>"
  let ?U = "\<lparr>df_columns = [''new_filename'', ''url''],
              df_rows = [[(''new_filename'', Str ''desk-mat-1.png''),
                          (''url'', Str ''https://cdn.example/desk-mat-1.png'')]]\<rparr>"
  let ?fm = "[(''desk-mat-1.png'', ''https://cdn.example/desk-mat-1.png'')]"
  have wf: "wf_dataframe ?P" by (simp add: wf_dataframe_def)
  have l1: "lower ''new_filename'' = ''new_filename''" by code_simp
  have l2: "lower ''url'' = ''url''" by code_simp
  have s1: "strip ''desk-mat-1.png'' = ''desk-mat-1.png''"
    and s2: "strip ''desk-mat-2.png'' = ''desk-mat-2.png''"
    and s3: "strip ''https://cdn.example/desk-mat-1.png'' = ''https://cdn.example/desk-mat-1.png''"
    by (simp_all add: strip_def strip_chars_def is_space_def)
  have fmv: "build_filemap (Some ?U) = Inr ?fm"
    by (simp add: build_filemap_def ci_column_def row_item_def Let_def l1 l2 s1 s3)
  obtain out where e: "merge_main ?P ?I (Some ?U) = Inr out"
    by (simp add: merge_main_def ensure_cols_def REQUIRED_PRODUCT_COLS_def IMAGE_COLS_def
        fmv resolve_images_def image_row_def row_item_def Let_def)
  from merge_main_rows [OF wf e] obtain filemap where
    c: "build_filemap (Some ?U) = Inr filemap \<and>
     (Some ?U = None \<longrightarrow> filemap = []) \<and>
     df_columns out =
       df_columns ?P @ filter (\<lambda>c. c \<notin> set (df_columns ?P))
         [''Image Src'', ''Image Alt Text'', ''Image Position''] \<and>
     length (df_rows out) = length (df_rows ?P) + length (df_rows ?I) \<and>
     (\<forall>r\<in>set (df_rows ?I). row_item r ''Handle'' = Inr (row_get r ''Handle'' NaN)) \<and>
     df_rows out =
       map (\<lambda>r. r @ map (\<lambda>c. (c, Str ''''))
                    (filter (\<lambda>c. c \<notin> set (df_columns ?P))
                       [''Image Src'', ''Image Alt Text'', ''Image Position'']))
           (df_rows ?P)
       @ map (\<lambda>r. map (\<lambda>c. (c,
                 if c = ''Image Position'' then row_get r ''Image Position'' (Str '''')
                 else if c = ''Image Alt Text'' then row_get r ''Image Alt Text'' (Str '''')
                 else if c = ''Image Src'' then
                   (if filemap = [] then row_get r ''Image Src'' (Str '''')
                    else (case map_of filemap (strip (str_cell (row_get r ''Image Src'' NaN))) of
                            Some u \<Rightarrow> Str u
                          | None \<Rightarrow> row_get r ''Image Src'' NaN))
                 else if c = ''Handle'' then row_get r ''Handle'' NaN
                 else Str '''')) (df_columns out))
           (df_rows ?I)"
    by (elim exE)
  have f: "filemap = ?fm"
    using c [THEN conjunct1] unfolding fmv by simp
  have cols: "df_columns out = [''Handle'', ''Title'', ''Body (HTML)'', ''Vendor'', ''Status'',
                       ''Image Src'', ''Image Alt Text'', ''Image Position'']"
    using c [THEN conjunct2, THEN conjunct2, THEN conjunct1] by simp
  have rows: "df_rows out =
       [[(''Handle'', Str ''desk-mat''), (''Title'', Str ''Desk Mat''),
         (''Body (HTML)'', Str ''<p>Mat</p>''), (''Vendor'', Str ''Aceru Studio''),
         (''Status'', Str ''active''), (''Image Src'', Str ''''),
         (''Image Alt Text'', Str ''''), (''Image Position'', Str '''')],
        [(''Handle'', Str ''desk-mat''), (''Title'', Str ''''),
         (''Body (HTML)'', Str ''''), (''Vendor'', Str ''''),
         (''Status'', Str ''''), (''Image Src'', Str ''https://cdn.example/desk-mat-1.png''),
         (''Image Alt Text'', Str ''Desk Mat front''), (''Image Position'', Num 1)],
        [(''Handle'', Str ''desk-mat''), (''Title'', Str ''''),
         (''Body (HTML)'', Str ''''), (''Vendor'', Str ''''),
         (''Status'', Str ''''), (''Image Src'', Str ''desk-mat-2.png''),
         (''Image Alt Text'', Str ''Desk Mat back''), (''Image Position'', Num 2)]]"
    using c [THEN conjunct2, THEN conjunct2, THEN conjunct2, THEN conjunct2, THEN conjunct2]
    unfolding cols f by (simp add: row_get_def s1 s2)
  show ?thesis
    by (rule exI [of _ out]) (intro conjI e cols rows)
qed
end
